theory Spec2Isabelle
  imports Complex_Main "HOL-Library.Word"
begin

section \<open>Go values\<close>

text \<open>
  The dynamic values the program stores in \<^verbatim>\<open>interface{}\<close>: command parameters
  going out (strings, booleans, Go ints) and decoded JSON coming in (where
  \<^verbatim>\<open>encoding/json\<close> yields \<^verbatim>\<open>float64\<close> for every number and
  \<^verbatim>\<open>map[string]interface{}\<close> for every object). A \<^verbatim>\<open>float64\<close> is kept as the
  rational it denotes. A Go map is an association list read with \<open>map_of\<close>.
\<close>

datatype goval =
    GoNil
  | GoBool bool
  | GoInt int
  | GoFloat64 rat
  | GoString string
  | GoSlice "goval list"
  | GoMap "(string \<times> goval) list"

type_synonym gomap = "(string \<times> goval) list"

text \<open>\<^verbatim>\<open>m[k]\<close> on a possibly nil map: the zero value \<^verbatim>\<open>nil\<close> when the key is absent.\<close>

definition index :: "gomap \<Rightarrow> string \<Rightarrow> goval" where
  "index m k = (case map_of m k of None \<Rightarrow> GoNil | Some v \<Rightarrow> v)"

text \<open>
  Go's \<^verbatim>\<open>int\<close> on a 64-bit target. The conversion \<^verbatim>\<open>int(f)\<close> of a \<^verbatim>\<open>float64\<close>
  discards the fraction (towards zero). For a value outside the range of \<^verbatim>\<open>int\<close> the
  language leaves the result to the implementation; the conversion instruction of amd64
  then yields the smallest \<^verbatim>\<open>int\<close>, \<open>- 2^63\<close>, whatever the value.
\<close>

type_synonym goint = "64 word"

definition float64_to_int :: "rat \<Rightarrow> goint" where
  "float64_to_int f =
     (let t = (if f < 0 then - \<lfloor>- f\<rfloor> else \<lfloor>f\<rfloor>)
      in if - (2 ^ 63) \<le> t \<and> t < 2 ^ 63 then word_of_int t else word_of_int (- (2 ^ 63)))"

section \<open>Package browser: the CDP session transport\<close>

subsection \<open>The environment of the transport\<close>

text \<open>
  What the transport does to the outside world is recorded in \<open>events\<close>, in order. What
  the outside world answers is scripted: the HTTP listing, the dial and the write look
  their outcome up at the position of the event log at which they happen, and
  \<^verbatim>\<open>ReadMessage\<close> takes the next entry of \<open>inbound\<close>. When \<open>inbound\<close> is empty no
  further frame ever arrives and the read blocks for ever.
\<close>

datatype error =
    FetchPagesFailed string
  | DecodeJSONFailed string
  | ConnectFailed string
  | NoSuitablePage
  | ReconnectFailed error
  | SendFailed string
  | ReadFailed string
  | NilConnection
  | UnexpectedResponseFormat gomap

record envelope =
  env_id :: goint
  env_method :: string
  env_params :: "gomap option"

datatype http_result =
    GetError string
  | DecodeError string
  | Pages "gomap list"

datatype read_result =
    ReadError string
  | Message string

datatype event =
    EGet
  | EClose string
  | EDial string
  | EWrite string envelope bool
  | LogConnected goval
  | LogParseFailed string

record world =
  events :: "event list"
  http_get :: "nat \<Rightarrow> http_result"
  ws_dial :: "nat \<Rightarrow> string \<Rightarrow> string option"
  ws_write :: "nat \<Rightarrow> string option"
  inbound :: "read_result list"

definition emit :: "event \<Rightarrow> world \<Rightarrow> world" where
  "emit e w = w\<lparr>events := events w @ [e]\<rparr>"

subsection \<open>The session\<close>

text \<open>
  \<^verbatim>\<open>*websocket.Conn\<close>: the endpoint it was dialled to and whether \<^verbatim>\<open>Close\<close> has
  been called on it. \<^verbatim>\<open>Browser\<close> keeps its data fields; the process handle, the
  context and its cancel function have no part in the transport and are left out, and
  \<^verbatim>\<open>messageMutex\<close> shows as the increment and the read of \<open>messageID\<close> being one step
  (\<open>next_id\<close> below).
\<close>

record Conn =
  endpoint :: string
  closed :: bool

record Browser =
  execPath :: string
  wsEndpoint :: string
  conn :: "Conn option"
  userDataDir :: string
  messageID :: goint
  pid :: int
  isHeadless :: bool

text \<open>\<^verbatim>\<open>http.Get\<close> of the listing followed by the JSON decoding of its body.\<close>

definition fetch_pages :: "world \<Rightarrow> http_result \<times> world" where
  "fetch_pages w = (http_get w (length (events w)), emit EGet w)"

text \<open>\<^verbatim>\<open>if b.conn != nil { b.conn.Close() }\<close>\<close>

definition close_conn :: "Browser \<Rightarrow> world \<Rightarrow> Browser \<times> world" where
  "close_conn b w =
     (case conn b of
        None \<Rightarrow> (b, w)
      | Some c \<Rightarrow> (b\<lparr>conn := Some (c\<lparr>closed := True\<rparr>)\<rparr>, emit (EClose (endpoint c)) w))"

text \<open>\<^verbatim>\<open>websocket.DefaultDialer.Dial(wsURL, nil)\<close>\<close>

definition Dial :: "string \<Rightarrow> world \<Rightarrow> (string + Conn) \<times> world" where
  "Dial wsURL w =
     (case ws_dial w (length (events w)) wsURL of
        Some err \<Rightarrow> (Inl err, emit (EDial wsURL) w)
      | None \<Rightarrow> (Inr \<lparr>endpoint = wsURL, closed = False\<rparr>, emit (EDial wsURL) w))"

text \<open>The loop of \<^verbatim>\<open>attachToPage\<close> over the decoded page descriptors.\<close>

fun attach_pages :: "gomap list \<Rightarrow> Browser \<Rightarrow> world \<Rightarrow> error option \<times> Browser \<times> world" where
  "attach_pages [] b w = (Some NoSuitablePage, b, w)"
| "attach_pages (page # pages) b w =
     (if index page ''type'' = GoString ''page'' \<and> index page ''url'' \<noteq> GoString '''' then
        (case index page ''webSocketDebuggerUrl'' of
           GoString wsURL \<Rightarrow>
             (case close_conn b w of (b1, w1) \<Rightarrow>
                (case Dial wsURL w1 of
                   (Inl err, w2) \<Rightarrow> (Some (ConnectFailed err), b1, w2)
                 | (Inr c, w2) \<Rightarrow>
                     (None, b1\<lparr>conn := Some c, wsEndpoint := wsURL\<rparr>,
                      emit (LogConnected (index page ''url'')) w2)))
         | _ \<Rightarrow> attach_pages pages b w)
      else attach_pages pages b w)"

definition attachToPage :: "Browser \<Rightarrow> world \<Rightarrow> error option \<times> Browser \<times> world" where
  "attachToPage b w =
     (case fetch_pages w of
        (GetError err, w1) \<Rightarrow> (Some (FetchPagesFailed err), b, w1)
      | (DecodeError err, w1) \<Rightarrow> (Some (DecodeJSONFailed err), b, w1)
      | (Pages pages, w1) \<Rightarrow> attach_pages pages b w1)"

text \<open>
  The critical section at the head of both send paths:
  \<^verbatim>\<open>b.messageMutex.Lock(); b.messageID++; id := b.messageID; b.messageMutex.Unlock()\<close>.
\<close>

definition next_id :: "Browser \<Rightarrow> goint \<times> Browser" where
  "next_id b = (messageID b + 1, b\<lparr>messageID := messageID b + 1\<rparr>)"

text \<open>\<^verbatim>\<open>if b.conn == nil { if err := b.attachToPage(); err != nil { return ... } }\<close>\<close>

definition ensure_conn :: "Browser \<Rightarrow> world \<Rightarrow> error option \<times> Browser \<times> world" where
  "ensure_conn b w =
     (if conn b = None then
        (case attachToPage b w of
           (Some err, b1, w1) \<Rightarrow> (Some (ReconnectFailed err), b1, w1)
         | (None, b1, w1) \<Rightarrow> (None, b1, w1))
      else (None, b, w))"

text \<open>
  \<^verbatim>\<open>c.WriteJSON(message)\<close> on the connection \<open>c\<close>: the event records the endpoint, the
  envelope and whether the write succeeded.
\<close>

definition WriteJSON :: "envelope \<Rightarrow> Conn \<Rightarrow> world \<Rightarrow> string option \<times> world" where
  "WriteJSON message c w =
     (case ws_write w (length (events w)) of
        Some err \<Rightarrow> (Some err, emit (EWrite (endpoint c) message False) w)
      | None \<Rightarrow> (None, emit (EWrite (endpoint c) message True) w))"

text \<open>
  Lines 155 to 178. \<^verbatim>\<open>b.conn.WriteJSON\<close> on a nil \<^verbatim>\<open>b.conn\<close> would dereference nil;
  that outcome is kept as the error \<open>NilConnection\<close>.
\<close>

definition SendCommandWithoutResponse ::
  "string \<Rightarrow> gomap option \<Rightarrow> Browser \<Rightarrow> world \<Rightarrow> error option \<times> Browser \<times> world" where
  "SendCommandWithoutResponse method params b w =
     (case next_id b of (ident, b1) \<Rightarrow>
        (let message = \<lparr>env_id = ident, env_method = method, env_params = params\<rparr> in
         case ensure_conn b1 w of
           (Some err, b2, w2) \<Rightarrow> (Some err, b2, w2)
         | (None, b2, w2) \<Rightarrow>
             (case conn b2 of
                None \<Rightarrow> (Some NilConnection, b2, w2)
              | Some c \<Rightarrow>
                  (case WriteJSON message c w2 of
                     (Some err, w3) \<Rightarrow> (Some (SendFailed err), b2, w3)
                   | (None, w3) \<Rightarrow> (None, b2, w3)))))"

text \<open>\<^verbatim>\<open>b.conn.ReadMessage()\<close>: \<open>None\<close> when the read never returns.\<close>

definition ReadMessage :: "world \<Rightarrow> (read_result \<times> world) option" where
  "ReadMessage w =
     (case inbound w of
        [] \<Rightarrow> None
      | r # rs \<Rightarrow> Some (r, w\<lparr>inbound := rs\<rparr>))"

text \<open>
  The read loop of \<^verbatim>\<open>SendCommandWithResponse\<close>. \<^verbatim>\<open>json.Unmarshal\<close> into a
  \<^verbatim>\<open>map[string]interface{}\<close> is the parameter \<open>unmarshal\<close> (\<open>None\<close> when it returns an
  error). The test of the loop is
  \<^verbatim>\<open>responseID, ok := response["id"].(float64); ok && int(responseID) == id\<close>.
\<close>

definition id_matches :: "gomap \<Rightarrow> goint \<Rightarrow> bool" where
  "id_matches response ident =
     (case index response ''id'' of
        GoFloat64 responseID \<Rightarrow> float64_to_int responseID = ident
      | _ \<Rightarrow> False)"

function read_loop ::
  "(string \<Rightarrow> gomap option) \<Rightarrow> goint \<Rightarrow> world \<Rightarrow> ((error + gomap) \<times> world) option" where
  "read_loop unmarshal ident w =
     (case ReadMessage w of
        None \<Rightarrow> None
      | Some (ReadError err, w1) \<Rightarrow> Some (Inl (ReadFailed err), w1)
      | Some (Message data, w1) \<Rightarrow>
          (case unmarshal data of
             None \<Rightarrow>
               read_loop unmarshal ident
                 (emit (LogParseFailed data) w1)
           | Some response \<Rightarrow>
               if id_matches response ident then Some (Inr response, w1)
               else read_loop unmarshal ident w1))"
  by pat_completeness auto
termination
  by (relation "measure (\<lambda>(unmarshal, ident, w). length (inbound w))")
     (auto simp: ReadMessage_def emit_def split: list.splits)

text \<open>Lines 115 to 153. \<open>None\<close>: the call never returns.\<close>

definition SendCommandWithResponse ::
  "(string \<Rightarrow> gomap option) \<Rightarrow> string \<Rightarrow> gomap option \<Rightarrow> Browser \<Rightarrow> world
   \<Rightarrow> ((error + gomap) \<times> Browser \<times> world) option" where
  "SendCommandWithResponse unmarshal method params b w =
     (case next_id b of (ident, b1) \<Rightarrow>
        (let message = \<lparr>env_id = ident, env_method = method, env_params = params\<rparr> in
         case ensure_conn b1 w of
           (Some err, b2, w2) \<Rightarrow> Some (Inl err, b2, w2)
         | (None, b2, w2) \<Rightarrow>
             (case conn b2 of
                None \<Rightarrow> Some (Inl NilConnection, b2, w2)
              | Some c \<Rightarrow>
                  (case WriteJSON message c w2 of
                     (Some err, w3) \<Rightarrow> Some (Inl (SendFailed err), b2, w3)
                   | (None, w3) \<Rightarrow>
                       (case read_loop unmarshal ident w3 of
                          None \<Rightarrow> None
                        | Some (r, w4) \<Rightarrow> Some (r, b2, w4))))))"

declare read_loop.simps [simp del]

section \<open>Package page: the Locator\<close>

subsection \<open>Strings and runes\<close>

text \<open>
  A Go string is a sequence of bytes. \<^verbatim>\<open>for _, char := range text\<close> decodes it as
  UTF-8, one rune at a time, and yields U+FFFD for a byte that starts no valid encoding;
  \<^verbatim>\<open>string(char)\<close> encodes a rune as UTF-8, and U+FFFD for a value that is no Unicode
  scalar value.
\<close>

type_synonym rune = nat

definition RuneError :: rune where
  "RuneError = 0xFFFD"

definition continuation :: "nat \<Rightarrow> bool" where
  "continuation b = (0x80 \<le> b \<and> b \<le> 0xBF)"

text \<open>
  The multi-byte cases of the decoder for the first byte \<open>b0\<close> and the bytes after it:
  the rune and the number of bytes after \<open>b0\<close> that belong to it.
\<close>

definition decode_multi :: "nat \<Rightarrow> nat list \<Rightarrow> (rune \<times> nat) option" where
  "decode_multi b0 bs =
     (if 0xC2 \<le> b0 \<and> b0 \<le> 0xDF then
        (case bs of
           b1 # _ \<Rightarrow>
             if continuation b1 then Some ((b0 - 0xC0) * 64 + (b1 - 0x80), 1) else None
         | _ \<Rightarrow> None)
      else if 0xE0 \<le> b0 \<and> b0 \<le> 0xEF then
        (case bs of
           b1 # b2 # _ \<Rightarrow>
             if (if b0 = 0xE0 then 0xA0 else 0x80) \<le> b1
                \<and> b1 \<le> (if b0 = 0xED then 0x9F else 0xBF) \<and> continuation b2
             then Some (((b0 - 0xE0) * 64 + (b1 - 0x80)) * 64 + (b2 - 0x80), 2) else None
         | _ \<Rightarrow> None)
      else if 0xF0 \<le> b0 \<and> b0 \<le> 0xF4 then
        (case bs of
           b1 # b2 # b3 # _ \<Rightarrow>
             if (if b0 = 0xF0 then 0x90 else 0x80) \<le> b1
                \<and> b1 \<le> (if b0 = 0xF4 then 0x8F else 0xBF)
                \<and> continuation b2 \<and> continuation b3
             then Some ((((b0 - 0xF0) * 64 + (b1 - 0x80)) * 64 + (b2 - 0x80)) * 64
                        + (b3 - 0x80), 3)
             else None
         | _ \<Rightarrow> None)
      else None)"

function decode_runes :: "nat list \<Rightarrow> rune list" where
  "decode_runes [] = []"
| "decode_runes (b0 # bs) =
     (if b0 < 0x80 then b0 # decode_runes bs
      else case decode_multi b0 bs of
             Some (r, n) \<Rightarrow> r # decode_runes (drop n bs)
           | None \<Rightarrow> RuneError # decode_runes bs)"
  by pat_completeness auto
termination
  by (relation "measure length") auto

definition runes :: "string \<Rightarrow> rune list" where
  "runes text = decode_runes (map of_char text)"

definition encode_rune :: "rune \<Rightarrow> nat list" where
  "encode_rune r =
     (if r < 0x80 then [r]
      else if r < 0x800 then [0xC0 + r div 64, 0x80 + r mod 64]
      else if 0x10FFFF < r \<or> (0xD800 \<le> r \<and> r \<le> 0xDFFF) then [0xEF, 0xBF, 0xBD]
      else if r < 0x10000 then [0xE0 + r div 4096, 0x80 + r div 64 mod 64, 0x80 + r mod 64]
      else [0xF0 + r div 262144, 0x80 + r div 4096 mod 64, 0x80 + r div 64 mod 64,
            0x80 + r mod 64])"

definition string_of_rune :: "rune \<Rightarrow> string" where
  "string_of_rune r = map char_of (encode_rune r)"

subsection \<open>The environment of the page\<close>

text \<open>
  The page reaches its browser through \<^verbatim>\<open>BrowserInterface\<close> only. The calls it makes
  are recorded in \<open>calls\<close>, in order; what the browser answers to the call made at
  position \<open>k\<close> of that record, and how long the call takes, is scripted. \<open>clock\<close> is the
  monotonic clock in nanoseconds; a sleep may overrun by \<open>overrun\<close>. \<open>random\<close> is the
  stream of the process-wide source of \<^verbatim>\<open>math/rand\<close> and \<open>drawn\<close> how much of it is
  used.
\<close>

datatype call =
    WithResponse string "gomap option"
  | WithoutResponse string "gomap option"

record pworld =
  clock :: nat
  calls :: "call list"
  with_response :: "nat \<Rightarrow> nat \<times> (error + gomap)"
  without_response :: "nat \<Rightarrow> nat \<times> error option"
  overrun :: "nat \<Rightarrow> nat"
  random :: "nat \<Rightarrow> nat"
  drawn :: nat
  logs :: "string list"

text \<open>\<^verbatim>\<open>l.page.browser.SendCommandWithResponse(method, params)\<close>\<close>

definition browser_SendCommandWithResponse ::
  "string \<Rightarrow> gomap option \<Rightarrow> pworld \<Rightarrow> (error + gomap) \<times> pworld" where
  "browser_SendCommandWithResponse method params w =
     (case with_response w (length (calls w)) of
        (d, r) \<Rightarrow> (r, w\<lparr>calls := calls w @ [WithResponse method params], clock := clock w + d\<rparr>))"

text \<open>\<^verbatim>\<open>l.page.browser.SendCommandWithoutResponse(method, params)\<close>\<close>

definition browser_SendCommandWithoutResponse ::
  "string \<Rightarrow> gomap option \<Rightarrow> pworld \<Rightarrow> error option \<times> pworld" where
  "browser_SendCommandWithoutResponse method params w =
     (case without_response w (length (calls w)) of
        (d, r) \<Rightarrow> (r, w\<lparr>calls := calls w @ [WithoutResponse method params], clock := clock w + d\<rparr>))"

text \<open>
  \<^verbatim>\<open>time.Duration\<close> counts nanoseconds. \<^verbatim>\<open>time.Sleep(d)\<close> returns at once for
  \<open>d \<le> 0\<close> and otherwise after at least \<open>d\<close>. \<^verbatim>\<open>time.Since(startTime)\<close> is the
  time elapsed on the monotonic clock.
\<close>

definition Millisecond :: int where
  "Millisecond = 1000000"

definition Second :: int where
  "Second = 1000000000"

definition Sleep :: "int \<Rightarrow> pworld \<Rightarrow> pworld" where
  "Sleep d w = (if d \<le> 0 then w else w\<lparr>clock := clock w + nat d + overrun w (clock w)\<rparr>)"

definition Since :: "nat \<Rightarrow> pworld \<Rightarrow> int" where
  "Since startTime w = int (clock w) - int startTime"

text \<open>
  \<^verbatim>\<open>time.Duration(delayMs) * time.Millisecond\<close>: \<^verbatim>\<open>delayMs\<close> is an \<^verbatim>\<open>int\<close> and the
  product is taken in \<^verbatim>\<open>int64\<close>, where it wraps.
\<close>

definition delay :: "goint \<Rightarrow> int" where
  "delay delayMs = sint (delayMs * 1000000)"

text \<open>
  \<^verbatim>\<open>rand.Float32()\<close> is a \<^verbatim>\<open>float32\<close> in \<open>[0, 1)\<close> and \<^verbatim>\<open>rand.Int31n(n)\<close> an
  \<^verbatim>\<open>int32\<close> in \<open>[0, n)\<close>; each takes the next value of the source.
\<close>

definition rand_Float32 :: "pworld \<Rightarrow> rat \<times> pworld" where
  "rand_Float32 w =
     (of_nat (random w (drawn w) mod 2 ^ 24) / 2 ^ 24, w\<lparr>drawn := drawn w + 1\<rparr>)"

definition rand_Int31n :: "nat \<Rightarrow> pworld \<Rightarrow> nat \<times> pworld" where
  "rand_Int31n n w = (random w (drawn w) mod n, w\<lparr>drawn := drawn w + 1\<rparr>)"

definition log_Printf :: "string \<Rightarrow> pworld \<Rightarrow> pworld" where
  "log_Printf msg w = w\<lparr>logs := logs w @ [msg]\<rparr>"

subsection \<open>The operations\<close>

text \<open>
  \<^verbatim>\<open>log.Fatalf\<close> prints and ends the process with \<^verbatim>\<open>os.Exit(1)\<close>: an operation
  either returns to its caller or ends the process.
\<close>

datatype fatal =
    TimeoutExceeded string
  | ClickFailed string error
  | InnerTextFailed string error
  | UnexpectedInnerTextFormat gomap

datatype 'a outcome =
    Returned 'a
  | Fatal fatal

record Locator =
  selector :: string

definition quote :: string where
  "quote = [CHR 0x22]"

definition querySelector :: "string \<Rightarrow> string" where
  "querySelector sel = ''document.querySelector('' @ quote @ sel @ quote @ '')''"

text \<open>The nested type assertions of \<^verbatim>\<open>elementExists\<close>, lines 73 to 79.\<close>

definition exists_value :: "gomap \<Rightarrow> bool option" where
  "exists_value response =
     (case index response ''result'' of
        GoMap result \<Rightarrow>
          (case index result ''result'' of
             GoMap nestedResult \<Rightarrow>
               (case index nestedResult ''value'' of
                  GoBool v \<Rightarrow> Some v
                | _ \<Rightarrow> None)
           | _ \<Rightarrow> None)
      | _ \<Rightarrow> None)"

definition exists_params :: "Locator \<Rightarrow> gomap" where
  "exists_params l =
     [(''expression'', GoString (querySelector (selector l) @ '' !== null'')),
      (''returnByValue'', GoBool True)]"

definition elementExists :: "Locator \<Rightarrow> pworld \<Rightarrow> (bool \<times> error option) \<times> pworld" where
  "elementExists l w =
     (case browser_SendCommandWithResponse ''Runtime.evaluate'' (Some (exists_params l)) w of
        (Inl err, w1) \<Rightarrow> ((False, Some err), w1)
      | (Inr response, w1) \<Rightarrow>
          (case exists_value response of
             Some v \<Rightarrow> ((v, None), w1)
           | None \<Rightarrow> ((False, Some (UnexpectedResponseFormat response)), w1)))"

definition timeout :: int where
  "timeout = 30 * Second"

definition interval :: int where
  "interval = 350 * Millisecond"

text \<open>
  The five operations open with the same loop (lines 84 to 97 and 122 of \<^verbatim>\<open>Fill\<close>, and
  the same lines of the other four). It is written once; \<open>found\<close> is the body of
  \<^verbatim>\<open>if exists { ... }\<close>.
\<close>

function poll ::
  "Locator \<Rightarrow> (pworld \<Rightarrow> 'a outcome \<times> pworld) \<Rightarrow> nat \<Rightarrow> pworld \<Rightarrow> 'a outcome \<times> pworld" where
  "poll l found startTime w =
     (if timeout < Since startTime w then (Fatal (TimeoutExceeded (selector l)), w)
      else
        (case elementExists l w of
           ((exists, Some err), w1) \<Rightarrow> poll l found startTime (Sleep interval w1)
         | ((exists, None), w1) \<Rightarrow>
             if exists then found w1 else poll l found startTime (Sleep interval w1)))"
  by pat_completeness auto
termination
  by (relation "measure (\<lambda>(l, found, startTime, w). nat (timeout + 1 - Since startTime w))")
     (auto simp: elementExists_def browser_SendCommandWithResponse_def Sleep_def Since_def
        interval_def timeout_def Millisecond_def Second_def
        split: prod.splits sum.splits option.splits)

declare poll.simps [simp del]

definition focus_params :: "Locator \<Rightarrow> gomap" where
  "focus_params l = [(''expression'', GoString (querySelector (selector l) @ ''.focus()''))]"

text \<open>Lines 100 to 120: the body of \<^verbatim>\<open>if exists\<close> in \<^verbatim>\<open>Fill\<close>. The errors the
  four commands return are dropped.\<close>

definition Fill_found :: "Locator \<Rightarrow> string \<Rightarrow> pworld \<Rightarrow> unit outcome \<times> pworld" where
  "Fill_found l val w =
     (case browser_SendCommandWithoutResponse ''Runtime.evaluate'' (Some (focus_params l)) w of
        (_, w1) \<Rightarrow>
     (case browser_SendCommandWithoutResponse ''Input.dispatchKeyEvent''
             (Some [(''type'', GoString ''keyDown''), (''modifiers'', GoInt 2), (''key'', GoString ''a'')]) w1 of
        (_, w2) \<Rightarrow>
     (case browser_SendCommandWithoutResponse ''Input.dispatchKeyEvent''
             (Some [(''type'', GoString ''keyDown''), (''key'', GoString ''Backspace'')]) w2 of
        (_, w3) \<Rightarrow>
     (case browser_SendCommandWithoutResponse ''Input.insertText''
             (Some [(''text'', GoString val)]) w3 of
        (_, w4) \<Rightarrow>
          (Returned (),
           log_Printf (''Filled selector '' @ selector l @ '' with value: '' @ val) w4)))))"

definition Fill :: "Locator \<Rightarrow> string \<Rightarrow> pworld \<Rightarrow> unit outcome \<times> pworld" where
  "Fill l val w = poll l (Fill_found l val) (clock w) w"

text \<open>Lines 143 to 151.\<close>

definition Click_found :: "Locator \<Rightarrow> pworld \<Rightarrow> unit outcome \<times> pworld" where
  "Click_found l w =
     (case browser_SendCommandWithoutResponse ''Runtime.evaluate''
             (Some [(''expression'', GoString (querySelector (selector l) @ ''.click()'')),
                    (''awaitPromise'', GoBool True)]) w of
        (Some err, w1) \<Rightarrow> (Fatal (ClickFailed (selector l) err), w1)
      | (None, w1) \<Rightarrow> (Returned (), log_Printf (''Clicked on selector: '' @ selector l) w1))"

definition Click :: "Locator \<Rightarrow> pworld \<Rightarrow> unit outcome \<times> pworld" where
  "Click l w = poll l (Click_found l) (clock w) w"

text \<open>Lines 179 to 184: one \<^verbatim>\<open>Input.insertText\<close> and one sleep for each rune.\<close>

fun type_runes :: "rune list \<Rightarrow> goint \<Rightarrow> pworld \<Rightarrow> pworld" where
  "type_runes [] delayMs w = w"
| "type_runes (char # rest) delayMs w =
     (case browser_SendCommandWithoutResponse ''Input.insertText''
             (Some [(''text'', GoString (string_of_rune char))]) w of
        (_, w1) \<Rightarrow> type_runes rest delayMs (Sleep (delay delayMs) w1))"

definition TypeSequentially_found ::
  "Locator \<Rightarrow> string \<Rightarrow> goint \<Rightarrow> pworld \<Rightarrow> unit outcome \<times> pworld" where
  "TypeSequentially_found l text delayMs w =
     (case browser_SendCommandWithoutResponse ''Runtime.evaluate'' (Some (focus_params l)) w of
        (_, w1) \<Rightarrow> (Returned (), type_runes (runes text) delayMs w1))"

definition TypeSequentially ::
  "Locator \<Rightarrow> string \<Rightarrow> goint \<Rightarrow> pworld \<Rightarrow> unit outcome \<times> pworld" where
  "TypeSequentially l text delayMs w = poll l (TypeSequentially_found l text delayMs) (clock w) w"

text \<open>Lines 208 to 221.\<close>

definition InnerText_found :: "Locator \<Rightarrow> pworld \<Rightarrow> string outcome \<times> pworld" where
  "InnerText_found l w =
     (case browser_SendCommandWithResponse ''Runtime.evaluate''
             (Some [(''expression'', GoString (querySelector (selector l) @ ''.innerText'')),
                    (''returnByValue'', GoBool True)]) w of
        (Inl err, w1) \<Rightarrow> (Fatal (InnerTextFailed (selector l) err), w1)
      | (Inr response, w1) \<Rightarrow>
          (case index response ''result'' of
             GoMap result \<Rightarrow>
               (case index result ''value'' of
                  GoString v \<Rightarrow> (Returned v, w1)
                | _ \<Rightarrow> (Fatal (UnexpectedInnerTextFormat response), w1))
           | _ \<Rightarrow> (Fatal (UnexpectedInnerTextFormat response), w1)))"

definition InnerText :: "Locator \<Rightarrow> pworld \<Rightarrow> string outcome \<times> pworld" where
  "InnerText l w = poll l (InnerText_found l) (clock w) w"

text \<open>
  Lines 248 to 270. The constant of \<^verbatim>\<open>rand.Float32() < 0.4\<close> is the \<^verbatim>\<open>float32\<close>
  nearest to 0.4; \<^verbatim>\<open>rand.Int31n(26) + 'a'\<close> is a rune from \<^verbatim>\<open>'a'\<close> to \<^verbatim>\<open>'z'\<close>.
\<close>

definition float32_0_4 :: rat where
  "float32_0_4 = 13421773 / 33554432"

definition backspace_params :: gomap where
  "backspace_params =
     [(''type'', GoString ''rawKeyDown''), (''key'', GoString ''Backspace''),
      (''windowsVirtualKeyCode'', GoInt 8), (''nativeVirtualKeyCode'', GoInt 8)]"

definition mistake :: "goint \<Rightarrow> pworld \<Rightarrow> pworld" where
  "mistake delayMs w =
     (case rand_Int31n 26 w of
        (n, w1) \<Rightarrow>
     (case browser_SendCommandWithoutResponse ''Input.insertText''
             (Some [(''text'', GoString (string_of_rune (n + 97)))]) w1 of
        (_, w2) \<Rightarrow>
     (case browser_SendCommandWithoutResponse ''Input.dispatchKeyEvent''
             (Some backspace_params) (Sleep (delay delayMs) w2) of
        (_, w3) \<Rightarrow> Sleep (delay delayMs) w3)))"

fun mistype_runes :: "rune list \<Rightarrow> goint \<Rightarrow> pworld \<Rightarrow> pworld" where
  "mistype_runes [] delayMs w = w"
| "mistype_runes (char # rest) delayMs w =
     (case rand_Float32 w of
        (f, w1) \<Rightarrow>
     (case browser_SendCommandWithoutResponse ''Input.insertText''
             (Some [(''text'', GoString (string_of_rune char))])
             (if f < float32_0_4 then mistake delayMs w1 else w1) of
        (_, w2) \<Rightarrow> mistype_runes rest delayMs (Sleep (delay delayMs) w2)))"

definition TypeWithMistakes_found ::
  "Locator \<Rightarrow> string \<Rightarrow> goint \<Rightarrow> pworld \<Rightarrow> unit outcome \<times> pworld" where
  "TypeWithMistakes_found l text delayMs w =
     (case browser_SendCommandWithoutResponse ''Runtime.evaluate'' (Some (focus_params l)) w of
        (_, w1) \<Rightarrow> (Returned (), mistype_runes (runes text) delayMs w1))"

definition TypeWithMistakes ::
  "Locator \<Rightarrow> string \<Rightarrow> goint \<Rightarrow> pworld \<Rightarrow> unit outcome \<times> pworld" where
  "TypeWithMistakes l text delayMs w = poll l (TypeWithMistakes_found l text delayMs) (clock w) w"

section \<open>Notions used by the properties\<close>

text \<open>The identifiers of the envelopes whose write succeeded, in the order of the writes.\<close>

fun wire_ids :: "event list \<Rightarrow> goint list" where
  "wire_ids [] = []"
| "wire_ids (EWrite u e ok # es) = (if ok then env_id e # wire_ids es else wire_ids es)"
| "wire_ids (_ # es) = wire_ids es"

text \<open>The event of \<^verbatim>\<open>attachToPage\<close> closing the connection the session holds, if any.\<close>

definition closes :: "Browser \<Rightarrow> event list" where
  "closes b = (case conn b of None \<Rightarrow> [] | Some c \<Rightarrow> [EClose (endpoint c)])"

text \<open>
  The frames the read loop passes over for the identifier \<open>ident\<close>: those that do not
  decode, and those that decode to an object whose \<open>id\<close> does not match. A failed read
  is not passed over. \<open>parse_logs\<close> are the log lines for the frames of a list that do
  not decode, and \<open>deliver\<close> is what the loop returns at a frame it does not pass over.
\<close>

definition discarded :: "(string \<Rightarrow> gomap option) \<Rightarrow> goint \<Rightarrow> read_result \<Rightarrow> bool" where
  "discarded unmarshal ident f =
     (case f of
        ReadError err \<Rightarrow> False
      | Message data \<Rightarrow>
          (case unmarshal data of None \<Rightarrow> True | Some response \<Rightarrow> \<not> id_matches response ident))"

fun parse_logs :: "(string \<Rightarrow> gomap option) \<Rightarrow> read_result list \<Rightarrow> event list" where
  "parse_logs unmarshal [] = []"
| "parse_logs unmarshal (Message data # fs) =
     (if unmarshal data = None then LogParseFailed data # parse_logs unmarshal fs
      else parse_logs unmarshal fs)"
| "parse_logs unmarshal (ReadError err # fs) = parse_logs unmarshal fs"

definition deliver :: "(string \<Rightarrow> gomap option) \<Rightarrow> read_result \<Rightarrow> error + gomap" where
  "deliver unmarshal f =
     (case f of
        ReadError err \<Rightarrow> Inl (ReadFailed err)
      | Message data \<Rightarrow> (case unmarshal data of None \<Rightarrow> Inr [] | Some response \<Rightarrow> Inr response))"





text \<open>
  The call \<^verbatim>\<open>elementExists\<close> makes, and what it returns for an answer of the browser. A
  page never matches when no answer in its script makes \<^verbatim>\<open>elementExists\<close> return
  \<open>true\<close> without an error.
\<close>

definition exists_call :: "Locator \<Rightarrow> call" where
  "exists_call l = WithResponse ''Runtime.evaluate'' (Some (exists_params l))"

definition exists_result :: "error + gomap \<Rightarrow> bool \<times> error option" where
  "exists_result r =
     (case r of
        Inl err \<Rightarrow> (False, Some err)
      | Inr response \<Rightarrow>
          (case exists_value response of
             Some v \<Rightarrow> (v, None)
           | None \<Rightarrow> (False, Some (UnexpectedResponseFormat response))))"

definition never_matches :: "pworld \<Rightarrow> bool" where
  "never_matches w = (\<forall>k. exists_result (snd (with_response w k)) \<noteq> (True, None))"

text \<open>The operations read the scripts of a page and never change them.\<close>

definition same_scripts :: "pworld \<Rightarrow> pworld \<Rightarrow> bool" where
  "same_scripts w w' \<longleftrightarrow>
     with_response w' = with_response w \<and> without_response w' = without_response w
     \<and> overrun w' = overrun w \<and> random w' = random w"

text \<open>One round of the loop that did not find the element.\<close>

definition next_round :: "Locator \<Rightarrow> pworld \<Rightarrow> pworld" where
  "next_round l w = Sleep interval (snd (elementExists l w))"

text \<open>The Unicode scalar values: the code points outside the surrogate range.\<close>

definition valid_rune :: "rune \<Rightarrow> bool" where
  "valid_rune r \<longleftrightarrow> r < 0x110000 \<and> \<not> (0xD800 \<le> r \<and> r \<le> 0xDFFF)"

text \<open>The four commands of \<^verbatim>\<open>Fill\<close>, lines 101 to 117.\<close>

definition Fill_commands :: "Locator \<Rightarrow> string \<Rightarrow> call list" where
  "Fill_commands l val =
     [WithoutResponse ''Runtime.evaluate'' (Some (focus_params l)),
      WithoutResponse ''Input.dispatchKeyEvent''
        (Some [(''type'', GoString ''keyDown''), (''modifiers'', GoInt 2), (''key'', GoString ''a'')]),
      WithoutResponse ''Input.dispatchKeyEvent''
        (Some [(''type'', GoString ''keyDown''), (''key'', GoString ''Backspace'')]),
      WithoutResponse ''Input.insertText'' (Some [(''text'', GoString val)])]"

text \<open>The calls of the typing operations.\<close>

definition insert_call :: "string \<Rightarrow> call" where
  "insert_call s = WithoutResponse ''Input.insertText'' (Some [(''text'', GoString s)])"

definition backspace_call :: call where
  "backspace_call = WithoutResponse ''Input.dispatchKeyEvent'' (Some backspace_params)"

definition focus_call :: "Locator \<Rightarrow> call" where
  "focus_call l = WithoutResponse ''Runtime.evaluate'' (Some (focus_params l))"

text \<open>
  What a text field holds after the commands of a list of calls, from the content \<open>buf\<close>:
  \<^verbatim>\<open>Input.insertText\<close> appends the runes of its text, a key event for Backspace
  removes the last one.
\<close>

fun replay :: "call list \<Rightarrow> rune list \<Rightarrow> rune list" where
  "replay [] buf = buf"
| "replay (WithoutResponse method (Some params) # cs) buf =
     (if method = ''Input.insertText'' then
        (case index params ''text'' of
           GoString s \<Rightarrow> replay cs (buf @ runes s)
         | _ \<Rightarrow> replay cs buf)
      else if method = ''Input.dispatchKeyEvent'' \<and> index params ''key'' = GoString ''Backspace''
        then replay cs (butlast buf)
      else replay cs buf)"
| "replay (_ # cs) buf = replay cs buf"

text \<open>
  The decisions of \<^verbatim>\<open>TypeWithMistakes\<close> for \<open>n\<close> runes, read off the random stream
  from position \<open>k\<close>: \<open>Some j\<close> when the draw of \<^verbatim>\<open>rand.Float32()\<close> is below 0.4, with
  \<open>j\<close> the following draw of \<^verbatim>\<open>rand.Int31n(26)\<close>.
\<close>

fun mistakes :: "(nat \<Rightarrow> nat) \<Rightarrow> nat \<Rightarrow> nat \<Rightarrow> nat option list" where
  "mistakes rnd k 0 = []"
| "mistakes rnd k (Suc n) =
     (if of_nat (rnd k mod 2 ^ 24) / 2 ^ 24 < float32_0_4
      then Some (rnd (k + 1) mod 26) # mistakes rnd (k + 2) n
      else None # mistakes rnd (k + 1) n)"

text \<open>The calls that type the runes \<open>rs\<close> under the decisions \<open>ms\<close>.\<close>

fun typed_with :: "rune list \<Rightarrow> nat option list \<Rightarrow> call list" where
  "typed_with (c # cs) (None # ms) = insert_call (string_of_rune c) # typed_with cs ms"
| "typed_with (c # cs) (Some j # ms) =
     insert_call (string_of_rune (j + 97)) # backspace_call
       # insert_call (string_of_rune c) # typed_with cs ms"
| "typed_with _ _ = []"

subsection \<open>Example sessions\<close>

text \<open>
  A session before it is attached and after; a browser that lists one page; worlds whose
  listing, writes and inbound frames are given, with every dial succeeding; a decoder
  that knows five frames.
\<close>

definition page_endpoint :: string where
  "page_endpoint = ''ws://localhost:9222/devtools/page/1''"

definition unattached :: Browser where
  "unattached =
     \<lparr>execPath = ''chrome'', wsEndpoint = '''', conn = None, userDataDir = ''/tmp/greenlight'',
      messageID = 0, pid = 4242, isHeadless = True\<rparr>"

definition attached :: Browser where
  "attached =
     unattached\<lparr>conn := Some \<lparr>endpoint = page_endpoint, closed = False\<rparr>,
                wsEndpoint := page_endpoint\<rparr>"

definition listing :: http_result where
  "listing =
     Pages [[(''type'', GoString ''page''), (''url'', GoString ''about:blank''),
             (''webSocketDebuggerUrl'', GoString page_endpoint)]]"

definition scripted ::
  "(nat \<Rightarrow> http_result) \<Rightarrow> (nat \<Rightarrow> string option) \<Rightarrow> read_result list \<Rightarrow> world" where
  "scripted listings writes frames =
     \<lparr>events = [], http_get = listings, ws_dial = (\<lambda>k u. None), ws_write = writes,
      inbound = frames\<rparr>"

definition online :: world where
  "online = scripted (\<lambda>k. listing) (\<lambda>k. None) []"

definition offline :: world where
  "offline = scripted (\<lambda>k. GetError ''refused'') (\<lambda>k. None) []"

definition no_page :: world where
  "no_page = scripted (\<lambda>k. Pages []) (\<lambda>k. None) [Message ''reply 1'']"

definition broken_pipe :: world where
  "broken_pipe =
     scripted (\<lambda>k. listing) (\<lambda>k. Some ''use of closed network connection'') []"

definition fraction_first :: world where
  "fraction_first = scripted (\<lambda>k. listing) (\<lambda>k. None) [Message ''reply 1.5'', Message ''reply 1'']"

definition example_unmarshal :: "string \<Rightarrow> gomap option" where
  "example_unmarshal data =
     (if data = ''reply 1'' then Some [(''id'', GoFloat64 1), (''result'', GoMap [])]
      else if data = ''reply 2'' then Some [(''id'', GoFloat64 2), (''result'', GoMap [])]
      else if data = ''reply 1.5'' then Some [(''id'', GoFloat64 (3 / 2)), (''result'', GoMap [])]
      else if data = ''event'' then Some [(''method'', GoString ''Page.loadEventFired'')]
      else None)"

text \<open>
  A page at time 0 whose answers to response-returning calls are given; every other call
  succeeds at once, no sleep overruns and the random source yields zeros.
\<close>

definition page_world :: "(nat \<Rightarrow> nat \<times> (error + gomap)) \<Rightarrow> pworld" where
  "page_world replies =
     \<lparr>clock = 0, calls = [], with_response = replies, without_response = (\<lambda>k. (0, None)),
      overrun = (\<lambda>t. 0), random = (\<lambda>k. 0), drawn = 0, logs = []\<rparr>"

definition exists_reply :: "bool \<Rightarrow> gomap" where
  "exists_reply v =
     [(''id'', GoFloat64 1),
      (''result'', GoMap [(''result'', GoMap [(''type'', GoString ''boolean''), (''value'', GoBool v)])])]"

definition slow_page :: pworld where
  "slow_page = page_world (\<lambda>k. (60000000000, Inr (exists_reply False)))"

definition flaky_replies :: "nat \<Rightarrow> nat \<times> (error + gomap)" where
  "flaky_replies k =
     (if k = 0 then (0, Inl (ReadFailed ''connection reset'')) else (0, Inr (exists_reply True)))"

definition malformed_reply :: gomap where
  "malformed_reply = [(''id'', GoFloat64 1), (''result'', GoMap [(''value'', GoBool True)])]"

definition clumsy_world :: pworld where
  "clumsy_world =
     (page_world (\<lambda>k. (0, Inr (exists_reply True))))
       \<lparr>random := (\<lambda>k. if k = 0 then 0 else 16777215)\<rparr>"

definition innerText_reply :: gomap where
  "innerText_reply =
     [(''id'', GoFloat64 2),
      (''result'', GoMap [(''result'', GoMap [(''type'', GoString ''string''),
                                              (''value'', GoString ''Hello'')])])]"

definition flat_reply :: gomap where
  "flat_reply = [(''id'', GoFloat64 2), (''result'', GoMap [(''value'', GoString ''Hello'')])]"

definition innerText_call :: "Locator \<Rightarrow> call" where
  "innerText_call l =
     WithResponse ''Runtime.evaluate''
       (Some [(''expression'', GoString (querySelector (selector l) @ ''.innerText'')),
              (''returnByValue'', GoBool True)])"

section \<open>Lemmas about the transport\<close>

lemma wire_ids_append: "wire_ids (xs @ ys) = wire_ids xs @ wire_ids ys"
  by (induction xs rule: wire_ids.induct) auto

lemma emit_simps:
  "events (emit e w) = events w @ [e]"
  "inbound (emit e w) = inbound w"
  "http_get (emit e w) = http_get w"
  "ws_dial (emit e w) = ws_dial w"
  "ws_write (emit e w) = ws_write w"
  by (simp_all add: emit_def)

lemma close_conn_eq:
  "close_conn b w = (b1, w1) \<Longrightarrow>
     events w1 = events w @ closes b \<and> messageID b1 = messageID b \<and> inbound w1 = inbound w"
  by (auto simp: close_conn_def closes_def emit_simps split: option.splits)

lemma Dial_eq:
  "Dial u w = (r, w1) \<Longrightarrow> events w1 = events w @ [EDial u] \<and> inbound w1 = inbound w
     \<and> (case r of Inl err \<Rightarrow> True | Inr c \<Rightarrow> c = \<lparr>endpoint = u, closed = False\<rparr>)"
  by (auto simp: Dial_def emit_simps split: option.splits)

lemma attach_pages_shape:
  "attach_pages pages b w = (r, b', w') \<Longrightarrow>
     messageID b' = messageID b \<and> inbound w' = inbound w \<and>
     ((r = Some NoSuitablePage \<and> b' = b \<and> w' = w) \<or>
      (\<exists>u err. r = Some (ConnectFailed err) \<and> events w' = events w @ closes b @ [EDial u]) \<or>
      (\<exists>u v. r = None \<and> events w' = events w @ closes b @ [EDial u, LogConnected v]
         \<and> conn b' = Some \<lparr>endpoint = u, closed = False\<rparr>))"
proof (induction pages b w rule: attach_pages.induct)
  case (1 b w)
  then show ?case by simp
next
  case (2 page pages b w)
  show ?case
  proof (cases "index page ''type'' = GoString ''page'' \<and> index page ''url'' \<noteq> GoString ''''")
    case False
    with 2 show ?thesis by simp
  next
    case sel: True
    show ?thesis
    proof (cases "index page ''webSocketDebuggerUrl''")
      case (GoString wsURL)
      obtain b1 w1 where c: "close_conn b w = (b1, w1)" by (cases "close_conn b w")
      obtain d w2 where d: "Dial wsURL w1 = (d, w2)" by (cases "Dial wsURL w1")
      from close_conn_eq[OF c] Dial_eq[OF d] "2.prems" sel GoString c d
      show ?thesis by (cases d) (auto simp: emit_simps)
    qed (use 2 sel in auto)
  qed
qed

lemma attachToPage_shape:
  "attachToPage b w = (r, b', w') \<Longrightarrow>
     messageID b' = messageID b \<and> inbound w' = inbound w \<and>
     ((\<exists>e. r = Some e \<and> (events w' = events w @ [EGet] \<or>
          (\<exists>u. events w' = events w @ EGet # closes b @ [EDial u]))) \<or>
      (\<exists>u v. r = None \<and> events w' = events w @ EGet # closes b @ [EDial u, LogConnected v]
         \<and> conn b' = Some \<lparr>endpoint = u, closed = False\<rparr>))"
proof -
  assume a: "attachToPage b w = (r, b', w')"
  show ?thesis
  proof (cases "http_get w (length (events w))")
    case (Pages pages)
    with a have ap: "attach_pages pages b (emit EGet w) = (r, b', w')"
      by (simp add: attachToPage_def fetch_pages_def)
    from attach_pages_shape[OF ap] show ?thesis
      by (auto simp: emit_simps)
  qed (use a in \<open>auto simp: attachToPage_def fetch_pages_def emit_simps\<close>)
qed

lemma ensure_conn_shape:
  "ensure_conn b w = (r, b', w') \<Longrightarrow>
     messageID b' = messageID b \<and> inbound w' = inbound w \<and>
     (if conn b = None then
        ((\<exists>e. r = Some (ReconnectFailed e) \<and> (events w' = events w @ [EGet] \<or>
            (\<exists>u. events w' = events w @ [EGet, EDial u]))) \<or>
         (\<exists>u v. r = None \<and> events w' = events w @ [EGet, EDial u, LogConnected v]
            \<and> conn b' = Some \<lparr>endpoint = u, closed = False\<rparr>))
      else r = None \<and> b' = b \<and> w' = w)"
proof (cases "conn b")
  case None
  assume a: "ensure_conn b w = (r, b', w')"
  obtain r1 b1 w1 where at: "attachToPage b w = (r1, b1, w1)" by (cases "attachToPage b w")
  from attachToPage_shape[OF at] a at None show ?thesis
    by (cases r1) (auto simp: ensure_conn_def closes_def)
next
  case (Some c)
  assume "ensure_conn b w = (r, b', w')"
  with Some show ?thesis by (auto simp: ensure_conn_def)
qed

lemma read_loop_complete:
  "inbound w = pre @ f # rest \<Longrightarrow> \<forall>g\<in>set pre. discarded um i g \<Longrightarrow> \<not> discarded um i f \<Longrightarrow>
     read_loop um i w =
       Some (deliver um f, w\<lparr>inbound := rest, events := events w @ parse_logs um pre\<rparr>)"
proof (induction pre arbitrary: w)
  case Nil
  then show ?case
    by (subst read_loop.simps)
       (auto simp: ReadMessage_def discarded_def deliver_def split: read_result.splits option.splits)
next
  case (Cons g pre)
  from Cons.prems obtain d where g: "g = Message d" and dg: "discarded um i g"
    by (cases g) (auto simp: discarded_def)
  show ?case
  proof (cases "um d")
    case None
    let ?w1 = "emit (LogParseFailed d) (w\<lparr>inbound := pre @ f # rest\<rparr>)"
    have "read_loop um i w = read_loop um i ?w1"
      using Cons.prems g None by (subst read_loop.simps) (simp add: ReadMessage_def)
    also have "\<dots> = Some (deliver um f, ?w1\<lparr>inbound := rest, events := events ?w1 @ parse_logs um pre\<rparr>)"
      using Cons.prems by (intro Cons.IH) (auto simp: emit_simps)
    finally show ?thesis using g None by (simp add: emit_def)
  next
    case (Some response)
    let ?w1 = "w\<lparr>inbound := pre @ f # rest\<rparr>"
    have "read_loop um i w = read_loop um i ?w1"
      using Cons.prems g Some dg
      by (subst read_loop.simps) (simp add: ReadMessage_def discarded_def)
    also have "\<dots> = Some (deliver um f, ?w1\<lparr>inbound := rest, events := events ?w1 @ parse_logs um pre\<rparr>)"
      using Cons.prems by (intro Cons.IH) auto
    finally show ?thesis using g Some by simp
  qed
qed

lemma read_loop_blocks_aux:
  "inbound w = fs \<Longrightarrow> \<forall>g\<in>set fs. discarded um i g \<Longrightarrow> read_loop um i w = None"
proof (induction fs arbitrary: w)
  case Nil
  then show ?case by (subst read_loop.simps) (simp add: ReadMessage_def)
next
  case (Cons g fs)
  from Cons.prems obtain d where g: "g = Message d" and dg: "discarded um i g"
    by (cases g) (auto simp: discarded_def)
  have all: "\<forall>h\<in>set fs. discarded um i h"
    using Cons.prems by simp
  show ?case
  proof (cases "um d")
    case None
    have "read_loop um i w = read_loop um i (emit (LogParseFailed d) (w\<lparr>inbound := fs\<rparr>))"
      using Cons.prems g None by (subst read_loop.simps) (simp add: ReadMessage_def)
    also have "\<dots> = None" using all by (intro Cons.IH) (auto simp: emit_simps)
    finally show ?thesis .
  next
    case (Some response)
    have "read_loop um i w = read_loop um i (w\<lparr>inbound := fs\<rparr>)"
      using Cons.prems g Some dg
      by (subst read_loop.simps) (simp add: ReadMessage_def discarded_def)
    also have "\<dots> = None" using all by (intro Cons.IH) auto
    finally show ?thesis .
  qed
qed

lemma read_loop_blocks:
  "\<forall>g\<in>set (inbound w). discarded um i g \<Longrightarrow> read_loop um i w = None"
  by (rule read_loop_blocks_aux) auto

lemma split_first_kept:
  "\<exists>g\<in>set fs. \<not> P g \<Longrightarrow> \<exists>pre f rest. fs = pre @ f # rest \<and> (\<forall>g\<in>set pre. P g) \<and> \<not> P f"
proof (induction fs)
  case Nil
  then show ?case by simp
next
  case (Cons a fs)
  show ?case
  proof (cases "P a")
    case False
    then have "a # fs = [] @ a # fs \<and> (\<forall>g\<in>set []. P g) \<and> \<not> P a" by simp
    then show ?thesis by blast
  next
    case True
    with Cons.prems have "\<exists>g\<in>set fs. \<not> P g" by auto
    from Cons.IH[OF this] obtain pre f rest
      where "fs = pre @ f # rest" "\<forall>g\<in>set pre. P g" "\<not> P f" by blast
    with True have "a # fs = (a # pre) @ f # rest \<and> (\<forall>g\<in>set (a # pre). P g) \<and> \<not> P f" by simp
    then show ?thesis by blast
  qed
qed

lemma read_loop_sound:
  assumes "read_loop um i w = Some (res, w')"
  shows "\<exists>pre f. inbound w = pre @ f # inbound w' \<and> (\<forall>g\<in>set pre. discarded um i g)
           \<and> \<not> discarded um i f \<and> res = deliver um f
           \<and> w' = w\<lparr>inbound := inbound w', events := events w @ parse_logs um pre\<rparr>"
proof -
  have "\<exists>g\<in>set (inbound w). \<not> discarded um i g"
    using assms read_loop_blocks[of w um i] by auto
  from split_first_kept[OF this] obtain pre f rest
    where sp: "inbound w = pre @ f # rest" "\<forall>g\<in>set pre. discarded um i g" "\<not> discarded um i f"
    by blast
  from read_loop_complete[OF sp] assms
  have "res = deliver um f" and "w' = w\<lparr>inbound := rest, events := events w @ parse_logs um pre\<rparr>"
    by auto
  with sp show ?thesis by auto
qed

lemma WriteJSON_shape:
  "WriteJSON msg c w = (r, w') \<Longrightarrow>
     inbound w' = inbound w \<and> events w' = events w @ [EWrite (endpoint c) msg (r = None)]"
proof (cases "ws_write w (length (events w))")
  case None
  assume "WriteJSON msg c w = (r, w')"
  with None have "r = None" "w' = emit (EWrite (endpoint c) msg True) w"
    by (simp_all add: WriteJSON_def)
  then show ?thesis by (simp add: emit_simps)
next
  case (Some s)
  assume "WriteJSON msg c w = (r, w')"
  with Some have "r = Some s" "w' = emit (EWrite (endpoint c) msg False) w"
    by (simp_all add: WriteJSON_def)
  then show ?thesis by (simp add: emit_simps)
qed

lemma ensure_conn_Some:
  "ensure_conn b w = (None, b', w') \<Longrightarrow> \<exists>c. conn b' = Some c"
  by (drule ensure_conn_shape) (auto split: if_splits)

lemma ensure_conn_error:
  "ensure_conn b w = (Some e, b', w') \<Longrightarrow> conn b = None \<and> (\<exists>e'. e = ReconnectFailed e')"
  by (drule ensure_conn_shape) (auto split: if_splits)

lemma without_cases:
  assumes "SendCommandWithoutResponse m p b w = (err, b', w')"
  obtains
    (reconnect) e where "conn b = None" "err = Some (ReconnectFailed e)"
      "ensure_conn (b\<lparr>messageID := messageID b + 1\<rparr>) w = (Some (ReconnectFailed e), b', w')"
  | (written) c w2 wr where
      "ensure_conn (b\<lparr>messageID := messageID b + 1\<rparr>) w = (None, b', w2)" "conn b' = Some c"
      "WriteJSON \<lparr>env_id = messageID b + 1, env_method = m, env_params = p\<rparr> c w2 = (wr, w')"
      "err = map_option SendFailed wr"
proof -
  let ?b1 = "b\<lparr>messageID := messageID b + 1\<rparr>"
  let ?msg = "\<lparr>env_id = messageID b + 1, env_method = m, env_params = p\<rparr>"
  obtain r b2 w2 where ec: "ensure_conn ?b1 w = (r, b2, w2)" by (cases "ensure_conn ?b1 w")
  show thesis
  proof (cases r)
    case (Some e)
    with ensure_conn_error[of ?b1 w e b2 w2] ec assms reconnect show ?thesis
      by (auto simp: SendCommandWithoutResponse_def next_id_def)
  next
    case None
    with ensure_conn_Some[of ?b1 w b2 w2] ec obtain c where c: "conn b2 = Some c" by auto
    obtain wr w3 where wj: "WriteJSON ?msg c w2 = (wr, w3)" by (cases "WriteJSON ?msg c w2")
    from assms ec None c wj have "b' = b2" "w' = w3" "err = map_option SendFailed wr"
      by (auto simp: SendCommandWithoutResponse_def next_id_def split: option.splits)
    with ec None c wj written show ?thesis by auto
  qed
qed

lemma with_cases:
  assumes "SendCommandWithResponse um m p b w = Some (res, b', w')"
  obtains
    (reconnect) e where "conn b = None" "res = Inl (ReconnectFailed e)"
      "ensure_conn (b\<lparr>messageID := messageID b + 1\<rparr>) w = (Some (ReconnectFailed e), b', w')"
  | (send) c w2 s where
      "ensure_conn (b\<lparr>messageID := messageID b + 1\<rparr>) w = (None, b', w2)" "conn b' = Some c"
      "WriteJSON \<lparr>env_id = messageID b + 1, env_method = m, env_params = p\<rparr> c w2 = (Some s, w')"
      "res = Inl (SendFailed s)"
  | (read) c w2 w3 where
      "ensure_conn (b\<lparr>messageID := messageID b + 1\<rparr>) w = (None, b', w2)" "conn b' = Some c"
      "WriteJSON \<lparr>env_id = messageID b + 1, env_method = m, env_params = p\<rparr> c w2 = (None, w3)"
      "read_loop um (messageID b + 1) w3 = Some (res, w')"
proof -
  let ?b1 = "b\<lparr>messageID := messageID b + 1\<rparr>"
  let ?msg = "\<lparr>env_id = messageID b + 1, env_method = m, env_params = p\<rparr>"
  obtain r b2 w2 where ec: "ensure_conn ?b1 w = (r, b2, w2)" by (cases "ensure_conn ?b1 w")
  show thesis
  proof (cases r)
    case (Some e)
    with ensure_conn_error[of ?b1 w e b2 w2] ec assms reconnect show ?thesis
      by (auto simp: SendCommandWithResponse_def next_id_def)
  next
    case None
    with ensure_conn_Some[of ?b1 w b2 w2] ec obtain c where c: "conn b2 = Some c" by auto
    obtain wr w3 where wj: "WriteJSON ?msg c w2 = (wr, w3)" by (cases "WriteJSON ?msg c w2")
    show ?thesis
    proof (cases wr)
      case (Some s)
      with assms ec None c wj have "b' = b2" "w' = w3" "res = Inl (SendFailed s)"
        by (auto simp: SendCommandWithResponse_def next_id_def)
      with ec None c wj Some send show ?thesis by auto
    next
      case wrNone: None
      with assms ec None c wj have
        "read_loop um (messageID b + 1) w3 = Some (res, w')" "b' = b2"
        by (auto simp: SendCommandWithResponse_def next_id_def split: option.splits)
      with ec None c wj wrNone read show ?thesis by auto
    qed
  qed
qed



lemma without_wire:
  assumes "SendCommandWithoutResponse m p b w = (err, b', w')"
  shows "messageID b' = messageID b + 1"
    and "wire_ids (events w') = wire_ids (events w) @ (if err = None then [messageID b + 1] else [])"
proof -
  from assms show "messageID b' = messageID b + 1"
  proof (cases rule: without_cases)
    case (reconnect e)
    from ensure_conn_shape[OF reconnect(3)] show ?thesis by simp
  next
    case (written c w2 wr)
    from ensure_conn_shape[OF written(1)] show ?thesis by simp
  qed
  from assms show "wire_ids (events w') = wire_ids (events w) @ (if err = None then [messageID b + 1] else [])"
  proof (cases rule: without_cases)
    case (reconnect e)
    from ensure_conn_shape[OF reconnect(3)] reconnect(1,2) show ?thesis
      by (auto simp: wire_ids_append)
  next
    case (written c w2 wr)
    from ensure_conn_shape[OF written(1)] WriteJSON_shape[OF written(3)] written(4)
    show ?thesis
      by (cases wr) (auto simp: wire_ids_append split: if_splits)
  qed
qed

lemma parse_logs_wire: "wire_ids (parse_logs um pre) = []"
  by (induction um pre rule: parse_logs.induct) auto

lemma read_loop_events:
  assumes "read_loop um i w = Some (res, w')"
  shows "\<exists>pre. events w' = events w @ parse_logs um pre"
proof -
  from read_loop_sound[OF assms] obtain pre f where
    "w' = w\<lparr>inbound := inbound w', events := events w @ parse_logs um pre\<rparr>" by blast
  then have "events w' = events (w\<lparr>inbound := inbound w', events := events w @ parse_logs um pre\<rparr>)"
    by simp
  then show ?thesis by auto
qed

lemma with_wire:
  assumes "SendCommandWithResponse um m p b w = Some (res, b', w')"
  shows "messageID b' = messageID b + 1"
    and "wire_ids (events w') = wire_ids (events w) @
           (if (\<exists>e. res = Inl (ReconnectFailed e)) \<or> (\<exists>s. res = Inl (SendFailed s)) then []
            else [messageID b + 1])"
proof -
  from assms show "messageID b' = messageID b + 1"
  proof (cases rule: with_cases)
    case (reconnect e)
    from ensure_conn_shape[OF reconnect(3)] show ?thesis by simp
  next
    case (send c w2 s)
    from ensure_conn_shape[OF send(1)] show ?thesis by simp
  next
    case (read c w2 w3)
    from ensure_conn_shape[OF read(1)] show ?thesis by simp
  qed
  from assms show "wire_ids (events w') = wire_ids (events w) @
           (if (\<exists>e. res = Inl (ReconnectFailed e)) \<or> (\<exists>s. res = Inl (SendFailed s)) then []
            else [messageID b + 1])"
  proof (cases rule: with_cases)
    case (reconnect e)
    from ensure_conn_shape[OF reconnect(3)] reconnect(1,2) show ?thesis
      by (auto simp: wire_ids_append)
  next
    case (send c w2 s)
    from ensure_conn_shape[OF send(1)] WriteJSON_shape[OF send(3)] send(4)
    show ?thesis
      by (auto simp: wire_ids_append split: if_splits)
  next
    case (read c w2 w3)
    from read_loop_sound[OF read(4)] obtain pre f where
      f: "\<not> discarded um (messageID b + 1) f" "res = deliver um f" by blast
    then have nres: "\<not> ((\<exists>e. res = Inl (ReconnectFailed e)) \<or> (\<exists>s. res = Inl (SendFailed s)))"
      by (cases f) (auto simp: deliver_def split: option.splits)
    from read_loop_events[OF read(4)] obtain pre where "events w' = events w3 @ parse_logs um pre"
      by blast
    with ensure_conn_shape[OF read(1)] WriteJSON_shape[OF read(3)] nres
    show ?thesis
      by (auto simp: wire_ids_append parse_logs_wire split: if_splits)
  qed
qed

text \<open>Which frames the test of the read loop accepts.\<close>

lemma floor_three_halves: "\<lfloor>3 / 2 :: rat\<rfloor> = 1"
  by (rule floor_unique) simp_all

lemma int_in_range:
  fixes k :: int
  assumes "0 \<le> k" "k < 2 ^ 63 + 1"
  shows "- (2 ^ 63) \<le> - k \<and> - k < 2 ^ 63" "k < 2 ^ 63 \<Longrightarrow> - (2 ^ 63) \<le> k"
  using assms by simp_all

lemma truncation_in_range:
  fixes f :: rat
  assumes "- (2 ^ 63) - 1 < f" "f < 2 ^ 63"
  shows "- (2 ^ 63) \<le> (if f < 0 then - \<lfloor>- f\<rfloor> else \<lfloor>f\<rfloor>)
       \<and> (if f < 0 then - \<lfloor>- f\<rfloor> else \<lfloor>f\<rfloor>) < 2 ^ 63"
proof (cases "f < 0")
  case True
  then have a: "0 \<le> \<lfloor>- f\<rfloor>" by simp
  have "- f < of_int (2 ^ 63 + 1)" using assms(1) by simp
  then have b: "\<lfloor>- f\<rfloor> < 2 ^ 63 + 1" by (simp only: floor_less_iff)
  from int_in_range(1)[OF a b]
  have "- (2 ^ 63) \<le> - \<lfloor>- f\<rfloor> \<and> - \<lfloor>- f\<rfloor> < 2 ^ 63" .
  then show ?thesis unfolding if_P[OF True] .
next
  case False
  then have a: "0 \<le> \<lfloor>f\<rfloor>" by simp
  have "f < of_int (2 ^ 63)" using assms(2) by simp
  then have b: "\<lfloor>f\<rfloor> < 2 ^ 63" by (simp only: floor_less_iff)
  from b have "\<lfloor>f\<rfloor> < 2 ^ 63 + 1" by simp
  from int_in_range(2)[OF a this b] b
  have "- (2 ^ 63) \<le> \<lfloor>f\<rfloor> \<and> \<lfloor>f\<rfloor> < 2 ^ 63" by (rule conjI)
  then show ?thesis unfolding if_not_P[OF False] .
qed

lemma word_of_int_eq_sint:
  fixes ident :: goint
  assumes "- (2 ^ 63) \<le> n" "n < 2 ^ 63"
  shows "(word_of_int n = ident) = (sint ident = n)"
proof
  assume "word_of_int n = ident"
  then have "sint ident = sint (word_of_int n :: goint)" by simp
  also have "\<dots> = n" using assms by (simp add: sint_sbintrunc' signed_take_bit_int_eq_self)
  finally show "sint ident = n" .
next
  assume a: "sint ident = n"
  show "word_of_int n = ident" unfolding a[symmetric] by simp
qed

lemma id_matches_in_range:
  assumes "index response ''id'' = GoFloat64 f" "- (2 ^ 63) - 1 < f" "f < 2 ^ 63"
  shows "id_matches response ident = (sint ident = (if f < 0 then - \<lfloor>- f\<rfloor> else \<lfloor>f\<rfloor>))"
proof -
  let ?t = "if f < 0 then - \<lfloor>- f\<rfloor> else \<lfloor>f\<rfloor>"
  from truncation_in_range[OF assms(2,3)] have r: "- (2 ^ 63) \<le> ?t" "?t < 2 ^ 63" by blast+
  then have "float64_to_int f = word_of_int ?t" by (simp add: float64_to_int_def Let_def)
  with assms(1) have "id_matches response ident = (word_of_int ?t = ident)"
    by (simp add: id_matches_def)
  also have "\<dots> = (sint ident = ?t)" by (rule word_of_int_eq_sint[OF r])
  finally show ?thesis .
qed

lemma id_matches_number:
  assumes "\<forall>f. index response ''id'' \<noteq> GoFloat64 f"
  shows "\<not> id_matches response ident"
  using assms by (simp add: id_matches_def split: goval.splits)

lemmas browser_defs =
  SendCommandWithoutResponse_def SendCommandWithResponse_def next_id_def ensure_conn_def
  attachToPage_def fetch_pages_def close_conn_def Dial_def WriteJSON_def emit_def index_def
  unattached_def attached_def listing_def scripted_def page_endpoint_def


lemma deliver_cases:
  assumes "\<not> discarded um i f"
  shows "(\<exists>s. f = ReadError s \<and> deliver um f = Inl (ReadFailed s))
       \<or> (\<exists>data response. f = Message data \<and> um data = Some response
             \<and> id_matches response i \<and> deliver um f = Inr response)"
  using assms by (cases f) (auto simp: discarded_def deliver_def split: option.splits)

section \<open>Lemmas about the polling loop\<close>

lemma same_scripts_refl [simp]: "same_scripts w w"
  by (simp add: same_scripts_def)

lemma same_scripts_trans: "same_scripts w w1 \<Longrightarrow> same_scripts w1 w2 \<Longrightarrow> same_scripts w w2"
  by (simp add: same_scripts_def)

lemma elementExists_eq:
  "elementExists l w =
     (exists_result (snd (with_response w (length (calls w)))),
      w\<lparr>calls := calls w @ [exists_call l],
        clock := clock w + fst (with_response w (length (calls w)))\<rparr>)"
  by (auto simp: elementExists_def browser_SendCommandWithResponse_def exists_result_def
        exists_call_def split: prod.splits sum.splits option.splits)

lemma Sleep_interval:
  "Sleep interval w = w\<lparr>clock := clock w + 350000000 + overrun w (clock w)\<rparr>"
  by (simp add: Sleep_def interval_def Millisecond_def)

lemma next_round_simps:
  "calls (next_round l w) = calls w @ [exists_call l]"
  "same_scripts w (next_round l w)"
  "with_response (next_round l w) = with_response w"
  "drawn (next_round l w) = drawn w"
  "logs (next_round l w) = logs w"
  by (simp_all add: next_round_def elementExists_eq Sleep_interval same_scripts_def)

lemma next_round_clock:
  "clock (next_round l w) =
     clock w + fst (with_response w (length (calls w))) + 350000000
       + overrun w (clock w + fst (with_response w (length (calls w))))"
  by (simp add: next_round_def elementExists_eq Sleep_interval)

lemma poll_timeout:
  "timeout < Since start w \<Longrightarrow> poll l found start w = (Fatal (TimeoutExceeded (selector l)), w)"
  by (subst poll.simps) simp

lemma poll_retry:
  "\<not> timeout < Since start w \<Longrightarrow> fst (elementExists l w) \<noteq> (True, None) \<Longrightarrow>
     poll l found start w = poll l found start (next_round l w)"
  by (subst poll.simps) (auto simp: next_round_def split: prod.splits option.splits)

lemma poll_found:
  "\<not> timeout < Since start w \<Longrightarrow> fst (elementExists l w) = (True, None) \<Longrightarrow>
     poll l found start w = found (snd (elementExists l w))"
  by (subst poll.simps) (auto split: prod.splits option.splits)

lemma poll_induct_rounds [consumes 0, case_names timeout found retry]:
  assumes "\<And>w. timeout < Since start w \<Longrightarrow> P w"
    and "\<And>w. \<not> timeout < Since start w \<Longrightarrow> fst (elementExists l w) = (True, None) \<Longrightarrow> P w"
    and "\<And>w. \<not> timeout < Since start w \<Longrightarrow> fst (elementExists l w) \<noteq> (True, None) \<Longrightarrow>
            P (next_round l w) \<Longrightarrow> P w"
  shows "P w"
proof (induction w rule: measure_induct_rule[where f = "\<lambda>w. nat (timeout + 1 - Since start w)"])
  case (less w)
  show ?case
  proof (cases "timeout < Since start w")
    case True
    then show ?thesis by (rule assms(1))
  next
    case nt: False
    show ?thesis
    proof (cases "fst (elementExists l w) = (True, None)")
      case True
      with nt show ?thesis by (rule assms(2))
    next
      case False
      have "nat (timeout + 1 - Since start (next_round l w)) < nat (timeout + 1 - Since start w)"
        using nt by (simp add: next_round_clock Since_def)
      from less[OF this] nt False show ?thesis by (rule assms(3)[rotated 2])
    qed
  qed
qed

lemma never_matches_next: "never_matches w \<Longrightarrow> never_matches (next_round l w)"
  by (simp add: never_matches_def next_round_simps)

lemma never_matches_not_found: "never_matches w \<Longrightarrow> fst (elementExists l w) \<noteq> (True, None)"
  by (simp add: never_matches_def elementExists_eq)

lemma poll_never:
  assumes "never_matches w"
    and "\<forall>k. fst (with_response w k) \<le> L" and "\<forall>t. overrun w t \<le> J"
    and "Since start w \<le> timeout + interval + int L + int J"
  shows "\<exists>w' n. poll l found start w = (Fatal (TimeoutExceeded (selector l)), w')
           \<and> timeout < Since start w' \<and> Since start w' \<le> timeout + interval + int L + int J
           \<and> calls w' = calls w @ replicate n (exists_call l)"
  using assms
proof (induction w rule: poll_induct_rounds[where start = start and l = l])
  case (timeout w)
  then have "poll l found start w = (Fatal (TimeoutExceeded (selector l)), w)
      \<and> timeout < Since start w \<and> Since start w \<le> timeout + interval + int L + int J
      \<and> calls w = calls w @ replicate 0 (exists_call l)"
    by (simp add: poll_timeout)
  then show ?case by blast
next
  case (found w)
  with never_matches_not_found show ?case by blast
next
  case (retry w)
  let ?w1 = "next_round l w"
  have d: "fst (with_response w (length (calls w))) \<le> L" using retry.prems(2) by blast
  have o: "overrun w (clock w + fst (with_response w (length (calls w)))) \<le> J"
    using retry.prems(3) by blast
  have b: "Since start ?w1 \<le> timeout + interval + int L + int J"
    using retry.hyps(1) d o by (simp add: next_round_clock Since_def interval_def Millisecond_def)
  have "\<forall>k. fst (with_response ?w1 k) \<le> L" "\<forall>t. overrun ?w1 t \<le> J"
    using retry.prems(2,3) next_round_simps(2)[of w l] by (simp_all add: same_scripts_def)
  from retry.IH[OF never_matches_next[OF retry.prems(1)] this b]
  obtain w' n where r: "poll l found start ?w1 = (Fatal (TimeoutExceeded (selector l)), w')"
    "timeout < Since start w'" "Since start w' \<le> timeout + interval + int L + int J"
    "calls w' = calls ?w1 @ replicate n (exists_call l)" by blast
  have "poll l found start w = (Fatal (TimeoutExceeded (selector l)), w')"
    using poll_retry[OF retry.hyps(1,2), of found] r(1) by simp
  moreover have "calls w' = calls w @ replicate (Suc n) (exists_call l)"
    using r(4) by (simp add: next_round_simps replicate_append_same)
  ultimately show ?case using r(2,3) by blast
qed

lemma poll_cases:
  assumes "poll l found start w = (out, w')"
  shows "(out = Fatal (TimeoutExceeded (selector l)) \<and> timeout < Since start w'
            \<and> (\<exists>n. calls w' = calls w @ replicate n (exists_call l)))
         \<or> (\<exists>w0 n. \<not> timeout < Since start w0 \<and> fst (elementExists l w0) = (True, None)
               \<and> found (snd (elementExists l w0)) = (out, w')
               \<and> calls w0 = calls w @ replicate n (exists_call l) \<and> same_scripts w w0
               \<and> drawn w0 = drawn w)"
  using assms
proof (induction w rule: poll_induct_rounds[where start = start and l = l])
  case (timeout w)
  then have "out = Fatal (TimeoutExceeded (selector l))" "w' = w"
    by (simp_all add: poll_timeout)
  with timeout have "out = Fatal (TimeoutExceeded (selector l)) \<and> timeout < Since start w'
      \<and> calls w' = calls w @ replicate 0 (exists_call l)" by simp
  then show ?case by blast
next
  case (found w)
  then have "found (snd (elementExists l w)) = (out, w')" by (simp add: poll_found)
  with found have "\<not> timeout < Since start w \<and> fst (elementExists l w) = (True, None)
      \<and> found (snd (elementExists l w)) = (out, w')
      \<and> calls w = calls w @ replicate 0 (exists_call l) \<and> same_scripts w w
      \<and> drawn w = drawn w" by simp
  then show ?case by blast
next
  case (retry w)
  let ?w1 = "next_round l w"
  have "poll l found start ?w1 = (out, w')"
    using poll_retry[OF retry.hyps(1,2), of found] retry.prems by simp
  from retry.IH[OF this] show ?case
  proof (elim disjE exE conjE)
    fix n assume "out = Fatal (TimeoutExceeded (selector l))" "timeout < Since start w'"
      "calls w' = calls ?w1 @ replicate n (exists_call l)"
    then have "out = Fatal (TimeoutExceeded (selector l)) \<and> timeout < Since start w'
      \<and> calls w' = calls w @ replicate (Suc n) (exists_call l)"
      by (simp add: next_round_simps replicate_append_same)
    then show ?thesis by blast
  next
    fix w0 n assume "\<not> timeout < Since start w0" "fst (elementExists l w0) = (True, None)"
      "found (snd (elementExists l w0)) = (out, w')"
      "calls w0 = calls ?w1 @ replicate n (exists_call l)" "same_scripts ?w1 w0"
      "drawn w0 = drawn ?w1"
    then have "\<not> timeout < Since start w0 \<and> fst (elementExists l w0) = (True, None)
      \<and> found (snd (elementExists l w0)) = (out, w')
      \<and> calls w0 = calls w @ replicate (Suc n) (exists_call l) \<and> same_scripts w w0
      \<and> drawn w0 = drawn w"
      using same_scripts_trans[OF next_round_simps(2)[of w l]]
      by (simp add: next_round_simps replicate_append_same)
    then show ?thesis by blast
  qed
qed

lemma poll_never_start:
  assumes "never_matches w"
    and "\<forall>k. fst (with_response w k) \<le> L" and "\<forall>t. overrun w t \<le> J"
  shows "\<exists>w'. poll l found (clock w) w = (Fatal (TimeoutExceeded (selector l)), w')
           \<and> timeout < Since (clock w) w'
           \<and> Since (clock w) w' \<le> timeout + interval + int L + int J"
proof -
  have "Since (clock w) w \<le> timeout + interval + int L + int J"
    by (simp add: Since_def timeout_def interval_def Second_def Millisecond_def)
  from poll_never[OF assms this, of l found] show ?thesis by blast
qed

lemma exists_value_reply [simp]: "exists_value (exists_reply v) = Some v"
  by (simp add: exists_value_def exists_reply_def index_def)

lemma exists_result_reply [simp]: "exists_result (Inr (exists_reply v)) = (v, None)"
  by (simp add: exists_result_def)

lemma Fill_found_calls:
  "Fill_found l val w = (out, w') \<Longrightarrow> out = Returned () \<and> calls w' = calls w @ Fill_commands l val"
  by (auto simp: Fill_found_def browser_SendCommandWithoutResponse_def log_Printf_def
        Fill_commands_def split: prod.splits)

lemma poll_retry_error:
  assumes "\<not> timeout < Since start w" and "elementExists l w = ((ex, Some err), w1)"
  shows "poll l found start w = poll l found start (Sleep interval w1)"
proof -
  from assms(2) have "fst (elementExists l w) \<noteq> (True, None)" by simp
  from poll_retry[OF assms(1) this, of found] assms(2) show ?thesis
    by (simp add: next_round_def)
qed

lemma not_expired_at_start: "\<not> timeout < Since (clock w) w"
  by (simp add: Since_def timeout_def Second_def)

lemma exists_value_malformed [simp]: "exists_value malformed_reply = None"
  by (simp add: exists_value_def malformed_reply_def index_def)

section \<open>Lemmas about runes\<close>

lemma decode_runes_ascii: "b0 < 0x80 \<Longrightarrow> decode_runes (b0 # bs) = b0 # decode_runes bs"
  by simp

lemma decode_encode_1:
  assumes "r < 0x80"
  shows "decode_runes (encode_rune r @ bs) = r # decode_runes bs"
  using assms by (simp add: encode_rune_def)

lemma div_64_below_32: "(r::nat) < 0x800 \<Longrightarrow> r div 64 < 32"
  by (simp add: div_less_iff_less_mult)

lemma div_64_from_2: "0x80 \<le> (r::nat) \<Longrightarrow> 2 \<le> r div 64"
  by (simp add: less_eq_div_iff_mult_less_eq)

lemma three_byte_split: "(r::nat) = (r div 4096 * 64 + r div 64 mod 64) * 64 + r mod 64"
proof -
  have "r div 4096 = r div 64 div 64" by (simp add: div_mult2_eq)
  then show ?thesis by simp
qed

lemma four_byte_split: "(r::nat) = ((r div 262144 * 64 + r div 4096 mod 64) * 64 + r div 64 mod 64) * 64 + r mod 64"
proof -
  have a: "r div 262144 = r div 4096 div 64" by (simp add: div_mult2_eq)
  have b: "r div 4096 = r div 64 div 64" by (simp add: div_mult2_eq)
  have "r div 4096 div 64 * 64 + r div 4096 mod 64 = r div 4096" by simp
  then have "(r div 262144 * 64 + r div 4096 mod 64) * 64 + r div 64 mod 64 = r div 64"
    unfolding a by (simp add: b)
  then show ?thesis by simp
qed

lemma decode_encode_2:
  assumes "0x80 \<le> r" "r < 0x800"
  shows "decode_runes (encode_rune r @ bs) = r # decode_runes bs"
proof -
  have a: "2 \<le> r div 64" "r div 64 < 32" using assms div_64_below_32 div_64_from_2 by auto
  have e: "encode_rune r = [0xC0 + r div 64, 0x80 + r mod 64]"
    using assms by (simp add: encode_rune_def)
  have m: "decode_multi (0xC0 + r div 64) ((0x80 + r mod 64) # bs) = Some (r, 1)"
    using a by (simp add: decode_multi_def continuation_def)
  show ?thesis using a by (simp add: e m)
qed

lemma three_byte_bounds:
  fixes r a b c :: nat
  assumes "0x800 \<le> r" "r < 0x10000" "\<not> (0xD800 \<le> r \<and> r \<le> 0xDFFF)"
    and r: "r = a * 4096 + b * 64 + c" and bc: "b < 64" "c < 64"
  shows "a < 16" "a = 0 \<Longrightarrow> 32 \<le> b" "a = 13 \<Longrightarrow> b < 32"
  using assms by linarith+

lemma four_byte_bounds:
  fixes r a b c d :: nat
  assumes "0x10000 \<le> r" "r < 0x110000"
    and r: "r = a * 262144 + b * 4096 + c * 64 + d" and bc: "b < 64" "c < 64" "d < 64"
  shows "a < 5" "a = 0 \<Longrightarrow> 16 \<le> b" "a = 4 \<Longrightarrow> b < 16"
  using assms by linarith+

lemma decode_multi_3:
  assumes "a < 16" "b < 64" "c < 64" "a = 0 \<Longrightarrow> 32 \<le> b" "a = 13 \<Longrightarrow> b < 32"
  shows "decode_multi (0xE0 + a) ((0x80 + b) # (0x80 + c) # bs) = Some ((a * 64 + b) * 64 + c, 2)"
  using assms by (auto simp: decode_multi_def continuation_def)

lemma decode_multi_4:
  assumes "a < 5" "b < 64" "c < 64" "d < 64" "a = 0 \<Longrightarrow> 16 \<le> b" "a = 4 \<Longrightarrow> b < 16"
  shows "decode_multi (0xF0 + a) ((0x80 + b) # (0x80 + c) # (0x80 + d) # bs)
           = Some ((((a * 64 + b) * 64 + c) * 64 + d), 3)"
  using assms by (auto simp: decode_multi_def continuation_def)

lemma decode_encode_3:
  assumes "0x800 \<le> r" "r < 0x10000" "\<not> (0xD800 \<le> r \<and> r \<le> 0xDFFF)"
  shows "decode_runes (encode_rune r @ bs) = r # decode_runes bs"
proof -
  define a where "a = r div 4096"
  define b where "b = r div 64 mod 64"
  define c where "c = r mod 64"
  have r: "r = (a * 64 + b) * 64 + c" unfolding a_def b_def c_def by (rule three_byte_split)
  then have r': "r = a * 4096 + b * 64 + c" by simp
  have bc: "b < 64" "c < 64" unfolding b_def c_def by simp_all
  note bnd = three_byte_bounds[OF assms r' bc]
  have e: "encode_rune r = [0xE0 + a, 0x80 + b, 0x80 + c]"
    using assms by (auto simp: encode_rune_def a_def b_def c_def)
  have m: "decode_multi (0xE0 + a) ((0x80 + b) # (0x80 + c) # bs) = Some (r, 2)"
    using decode_multi_3[OF bnd(1) bc bnd(2,3)] r by simp
  have "\<not> 0xE0 + a < (0x80::nat)" by simp
  then show ?thesis unfolding e by (simp add: m)
qed

lemma decode_encode_4:
  assumes "0x10000 \<le> r" "r < 0x110000"
  shows "decode_runes (encode_rune r @ bs) = r # decode_runes bs"
proof -
  define a where "a = r div 262144"
  define b where "b = r div 4096 mod 64"
  define c where "c = r div 64 mod 64"
  define d where "d = r mod 64"
  have r: "r = ((a * 64 + b) * 64 + c) * 64 + d" unfolding a_def b_def c_def d_def by (rule four_byte_split)
  then have r': "r = a * 262144 + b * 4096 + c * 64 + d" by simp
  have bc: "b < 64" "c < 64" "d < 64" unfolding b_def c_def d_def by simp_all
  note bnd = four_byte_bounds[OF assms r' bc]
  have e: "encode_rune r = [0xF0 + a, 0x80 + b, 0x80 + c, 0x80 + d]"
    using assms by (auto simp: encode_rune_def a_def b_def c_def d_def)
  have m: "decode_multi (0xF0 + a) ((0x80 + b) # (0x80 + c) # (0x80 + d) # bs) = Some (r, 3)"
    using decode_multi_4[OF bnd(1) bc bnd(2,3)] r by simp
  have "\<not> 0xF0 + a < (0x80::nat)" by simp
  then show ?thesis unfolding e by (simp add: m)
qed

lemma decode_encode:
  assumes "valid_rune r"
  shows "decode_runes (encode_rune r @ bs) = r # decode_runes bs"
proof -
  consider "r < 0x80" | "0x80 \<le> r" "r < 0x800" | "0x800 \<le> r" "r < 0x10000" | "0x10000 \<le> r"
    by linarith
  then show ?thesis
  proof cases
    case 1 then show ?thesis by (rule decode_encode_1)
  next
    case 2 then show ?thesis by (rule decode_encode_2)
  next
    case 3 with assms show ?thesis by (intro decode_encode_3) (auto simp: valid_rune_def)
  next
    case 4 with assms show ?thesis by (intro decode_encode_4) (auto simp: valid_rune_def)
  qed
qed

lemma encode_rune_bytes: "b \<in> set (encode_rune r) \<Longrightarrow> b < 256"
proof -
  assume b: "b \<in> set (encode_rune r)"
  have m: "\<And>x. (x::nat) mod 64 < 64" by simp
  consider "r < 0x80" | "0x80 \<le> r" "r < 0x800"
    | "0x800 \<le> r" "0x10FFFF < r \<or> (0xD800 \<le> r \<and> r \<le> 0xDFFF)"
    | "0x800 \<le> r" "r < 0x10000" "\<not> (0x10FFFF < r \<or> (0xD800 \<le> r \<and> r \<le> 0xDFFF))"
    | "0x10000 \<le> r" "\<not> (0x10FFFF < r \<or> (0xD800 \<le> r \<and> r \<le> 0xDFFF))"
    by linarith
  then show ?thesis
  proof cases
    case 1 with b show ?thesis by (simp add: encode_rune_def)
  next
    case 2
    then have "r div 64 < 32" by (simp add: div_less_iff_less_mult)
    with 2 b m[of r] show ?thesis by (auto simp: encode_rune_def)
  next
    case 3 with b show ?thesis by (auto simp: encode_rune_def)
  next
    case 4
    then have "r div 4096 < 16" by (simp add: div_less_iff_less_mult)
    with 4 b m[of r] m[of "r div 64"] show ?thesis by (auto simp: encode_rune_def)
  next
    case 5
    then have "r div 262144 < 5" by (simp add: div_less_iff_less_mult)
    with 5 b m[of r] m[of "r div 64"] m[of "r div 4096"] show ?thesis
      by (auto simp: encode_rune_def)
  qed
qed

lemma of_char_char_of_bytes:
  "\<forall>b\<in>set bs. b < 256 \<Longrightarrow> map of_char (map char_of bs) = (bs :: nat list)"
  by (induction bs) auto

lemma runes_string_of_rune:
  assumes "valid_rune r"
  shows "runes (string_of_rune r) = [r]"
proof -
  have "map of_char (map char_of (encode_rune r)) = encode_rune r"
    by (rule of_char_char_of_bytes) (auto dest: encode_rune_bytes)
  then have "runes (string_of_rune r) = decode_runes (encode_rune r @ [])"
    by (simp add: runes_def string_of_rune_def)
  also have "\<dots> = [r]" using decode_encode[OF assms, of "[]"] by simp
  finally show ?thesis .
qed

lemma valid_three:
  fixes a b c r :: nat
  assumes "r = a * 4096 + b * 64 + c" "b < 64" "c < 64" "a < 16" "a = 13 \<Longrightarrow> b < 32"
  shows "valid_rune r"
proof -
  consider "a \<le> 12" | "a = 13" | "14 \<le> a" by linarith
  then show ?thesis
  proof cases
    case 1 with assms show ?thesis unfolding valid_rune_def by linarith
  next
    case 2 with assms show ?thesis unfolding valid_rune_def by simp
  next
    case 3 with assms show ?thesis unfolding valid_rune_def by linarith
  qed
qed

lemma valid_four:
  fixes a b c d r :: nat
  assumes "r = a * 262144 + b * 4096 + c * 64 + d" "b < 64" "c < 64" "d < 64" "a < 5"
    "a = 0 \<Longrightarrow> 16 \<le> b" "a = 4 \<Longrightarrow> b < 16"
  shows "valid_rune r"
proof -
  consider "a = 0" | "1 \<le> a" "a \<le> 3" | "a = 4" using assms(5) by linarith
  then show ?thesis
  proof cases
    case 1 with assms show ?thesis unfolding valid_rune_def by simp
  next
    case 2 with assms show ?thesis unfolding valid_rune_def by linarith
  next
    case 3 with assms show ?thesis unfolding valid_rune_def by simp
  qed
qed

lemma decode_multi_valid:
  assumes "decode_multi b0 bs = Some (r, n)"
  shows "valid_rune r \<and> n \<le> length bs"
proof -
  consider (two) "0xC2 \<le> b0" "b0 \<le> 0xDF" | (three) "0xE0 \<le> b0" "b0 \<le> 0xEF"
    | (four) "0xF0 \<le> b0" "b0 \<le> 0xF4" | (none) "b0 < 0xC2 \<or> 0xF4 < b0"
    by linarith
  then show ?thesis
  proof cases
    case two
    then have d: "decode_multi b0 bs =
        (case bs of b1 # _ \<Rightarrow>
           if continuation b1 then Some ((b0 - 0xC0) * 64 + (b1 - 0x80), 1) else None
         | _ \<Rightarrow> None)"
      by (simp add: decode_multi_def)
    from assms[unfolded d] obtain b1 rest where bs: "bs = b1 # rest"
      by (cases bs) auto
    from assms[unfolded d] have c: "continuation b1" and r: "r = (b0 - 0xC0) * 64 + (b1 - 0x80)" and n: "n = 1"
      unfolding bs by (auto split: if_splits)
    have "b0 - 0xC0 < 32" "b1 - 0x80 < 64" using two c by (auto simp: continuation_def)
    then have "r < 0x800" unfolding r by linarith
    then show ?thesis using n bs by (simp add: valid_rune_def)
  next
    case three
    then have d: "decode_multi b0 bs =
        (case bs of
           b1 # b2 # _ \<Rightarrow>
             if (if b0 = 0xE0 then 0xA0 else 0x80) \<le> b1
                \<and> b1 \<le> (if b0 = 0xED then 0x9F else 0xBF) \<and> continuation b2
             then Some (((b0 - 0xE0) * 64 + (b1 - 0x80)) * 64 + (b2 - 0x80), 2) else None
         | _ \<Rightarrow> None)"
      by (simp add: decode_multi_def)
    from assms[unfolded d] obtain b1 b2 rest where bs: "bs = b1 # b2 # rest"
      by (cases bs; cases "tl bs") auto
    from assms[unfolded d] have c: "0x80 \<le> b1" "b1 \<le> (if b0 = 0xED then 0x9F else 0xBF)" "continuation b2"
      and r: "r = ((b0 - 0xE0) * 64 + (b1 - 0x80)) * 64 + (b2 - 0x80)" and n: "n = 2"
      unfolding bs by (auto split: if_splits)
    define a b c' where "a = b0 - 0xE0" and "b = b1 - 0x80" and "c' = b2 - 0x80"
    have 1: "r = a * 4096 + b * 64 + c'" unfolding r a_def b_def c'_def by simp
    have 2: "b < 64" "c' < 64" "a < 16" using three c
      unfolding a_def b_def c'_def by (auto simp: continuation_def split: if_splits)
    have 3: "a = 13 \<Longrightarrow> b < 32" using three c(1,2) unfolding a_def b_def by (auto split: if_splits)
    from valid_three[OF 1 2 3] n bs show ?thesis by simp
  next
    case four
    then have d: "decode_multi b0 bs =
        (case bs of
           b1 # b2 # b3 # _ \<Rightarrow>
             if (if b0 = 0xF0 then 0x90 else 0x80) \<le> b1
                \<and> b1 \<le> (if b0 = 0xF4 then 0x8F else 0xBF)
                \<and> continuation b2 \<and> continuation b3
             then Some ((((b0 - 0xF0) * 64 + (b1 - 0x80)) * 64 + (b2 - 0x80)) * 64
                        + (b3 - 0x80), 3)
             else None
         | _ \<Rightarrow> None)"
      by (simp add: decode_multi_def)
    from assms[unfolded d] obtain b1 b2 b3 rest where bs: "bs = b1 # b2 # b3 # rest"
      by (cases bs; cases "tl bs"; cases "tl (tl bs)") auto
    from assms[unfolded d] have c: "(if b0 = 0xF0 then 0x90 else 0x80) \<le> b1"
      "b1 \<le> (if b0 = 0xF4 then 0x8F else 0xBF)" "continuation b2" "continuation b3"
      and r: "r = (((b0 - 0xF0) * 64 + (b1 - 0x80)) * 64 + (b2 - 0x80)) * 64 + (b3 - 0x80)"
      and n: "n = 3"
      unfolding bs by (auto split: if_splits)
    define a b c' e where "a = b0 - 0xF0" and "b = b1 - 0x80" and "c' = b2 - 0x80"
      and "e = b3 - 0x80"
    have 1: "r = a * 262144 + b * 4096 + c' * 64 + e" unfolding r a_def b_def c'_def e_def by simp
    have 2: "b < 64" "c' < 64" "e < 64" "a < 5" using four c
      unfolding a_def b_def c'_def e_def by (auto simp: continuation_def split: if_splits)
    have 3: "a = 0 \<Longrightarrow> 16 \<le> b" "a = 4 \<Longrightarrow> b < 16"
      using four c(1,2) unfolding a_def b_def by (auto split: if_splits)
    from valid_four[OF 1 2 3] n bs show ?thesis by simp
  next
    case none
    with assms show ?thesis by (auto simp: decode_multi_def)
  qed
qed

lemma decode_runes_valid: "r \<in> set (decode_runes bs) \<Longrightarrow> valid_rune r"
proof (induction bs arbitrary: r rule: decode_runes.induct)
  case 1
  then show ?case by simp
next
  case (2 b0 bs)
  show ?case
  proof (cases "b0 < 0x80")
    case True
    with 2 show ?thesis by (auto simp: valid_rune_def)
  next
    case nb: False
    show ?thesis
    proof (cases "decode_multi b0 bs")
      case None
      with 2 nb show ?thesis by (auto simp: valid_rune_def RuneError_def)
    next
      case (Some p)
      obtain r' n where p: "p = (r', n)" by (cases p)
      from decode_multi_valid[of b0 bs r' n] Some p have "valid_rune r'" by simp
      with 2 nb Some p show ?thesis by auto
    qed
  qed
qed

lemma runes_valid: "r \<in> set (runes text) \<Longrightarrow> valid_rune r"
  unfolding runes_def by (rule decode_runes_valid)

section \<open>Lemmas about typing\<close>

lemma without_snd [simp]:
  "calls (snd (browser_SendCommandWithoutResponse m p w)) = calls w @ [WithoutResponse m p]"
  "random (snd (browser_SendCommandWithoutResponse m p w)) = random w"
  "drawn (snd (browser_SendCommandWithoutResponse m p w)) = drawn w"
  by (simp_all add: browser_SendCommandWithoutResponse_def case_prod_beta)

lemma Sleep_fields [simp]:
  "calls (Sleep d w) = calls w" "random (Sleep d w) = random w" "drawn (Sleep d w) = drawn w"
  by (simp_all add: Sleep_def)

lemma mistake_fields:
  "calls (mistake d w) = calls w @
     [insert_call (string_of_rune (random w (drawn w) mod 26 + 97)), backspace_call]"
  "random (mistake d w) = random w" "drawn (mistake d w) = drawn w + 1"
  by (simp_all add: mistake_def rand_Int31n_def insert_call_def backspace_call_def
        case_prod_beta)

lemma mistype_runes_fields:
  "calls (mistype_runes rs d w) = calls w @ typed_with rs (mistakes (random w) (drawn w) (length rs))
   \<and> random (mistype_runes rs d w) = random w"
proof (induction rs arbitrary: w)
  case Nil
  then show ?case by simp
next
  case (Cons c rs)
  show ?case
  proof (cases "of_nat (random w (drawn w) mod 2 ^ 24) / 2 ^ 24 < float32_0_4")
    case True
    let ?w1 = "w\<lparr>drawn := drawn w + 1\<rparr>"
    let ?w2 = "Sleep (delay d) (snd (browser_SendCommandWithoutResponse ''Input.insertText''
       (Some [(''text'', GoString (string_of_rune c))]) (mistake d ?w1)))"
    have s: "mistype_runes (c # rs) d w = mistype_runes rs d ?w2"
      using True by (simp add: rand_Float32_def case_prod_beta)
    have f: "calls ?w2 = calls w @ [insert_call (string_of_rune (random w (drawn w + 1) mod 26 + 97)),
        backspace_call, insert_call (string_of_rune c)]"
      "random ?w2 = random w" "drawn ?w2 = drawn w + 2"
      by (simp_all add: mistake_fields insert_call_def)
    note ih = Cons.IH[of ?w2, unfolded f]
    show ?thesis unfolding s using ih True by simp
  next
    case False
    let ?w1 = "w\<lparr>drawn := drawn w + 1\<rparr>"
    let ?w2 = "Sleep (delay d) (snd (browser_SendCommandWithoutResponse ''Input.insertText''
       (Some [(''text'', GoString (string_of_rune c))]) ?w1))"
    have s: "mistype_runes (c # rs) d w = mistype_runes rs d ?w2"
      using False by (simp add: rand_Float32_def case_prod_beta)
    have f: "calls ?w2 = calls w @ [insert_call (string_of_rune c)]"
      "random ?w2 = random w" "drawn ?w2 = drawn w + 1"
      by (simp_all add: insert_call_def)
    note ih = Cons.IH[of ?w2, unfolded f]
    show ?thesis unfolding s using ih False by simp
  qed
qed

lemma mistakes_length [simp]: "length (mistakes rnd k n) = n"
  by (induction n arbitrary: k) auto

lemma mistakes_range: "Some j \<in> set (mistakes rnd k n) \<Longrightarrow> j < 26"
  by (induction n arbitrary: k) (auto split: if_splits)

lemma replay_append: "replay (xs @ ys) buf = replay ys (replay xs buf)"
  by (induction xs buf rule: replay.induct) (auto split: goval.splits)

lemma replay_insert:
  "valid_rune c \<Longrightarrow> replay (insert_call (string_of_rune c) # cs) buf = replay cs (buf @ [c])"
  by (simp add: insert_call_def index_def runes_string_of_rune)

lemma replay_backspace: "replay (backspace_call # cs) buf = replay cs (butlast buf)"
  by (simp add: backspace_call_def backspace_params_def index_def)

lemma valid_letter: "j < 26 \<Longrightarrow> valid_rune (j + 97)"
  by (simp add: valid_rune_def)

lemma replay_typed_with:
  "length ms = length rs \<Longrightarrow> \<forall>r\<in>set rs. valid_rune r \<Longrightarrow> \<forall>j. Some j \<in> set ms \<longrightarrow> j < 26 \<Longrightarrow>
     replay (typed_with rs ms) buf = buf @ rs"
proof (induction rs ms arbitrary: buf rule: typed_with.induct)
  case (1 c cs ms)
  then show ?case by (simp add: replay_insert)
next
  case (2 c cs j ms)
  then have "valid_rune (j + 97)" by (intro valid_letter) auto
  with 2 show ?case by (simp add: replay_insert replay_backspace)
qed auto

lemma decode_runes_utf8:
  "\<forall>r\<in>set rs. valid_rune r \<Longrightarrow> decode_runes (concat (map encode_rune rs)) = rs"
  by (induction rs) (simp_all add: decode_encode)

lemma runes_utf8:
  assumes "\<forall>r\<in>set rs. valid_rune r"
  shows "runes (concat (map string_of_rune rs)) = rs"
proof -
  have "map of_char (concat (map string_of_rune rs)) = concat (map encode_rune rs)"
  proof (induction rs)
    case Nil
    then show ?case by simp
  next
    case (Cons r rs)
    have "map of_char (map char_of (encode_rune r)) = encode_rune r"
      by (rule of_char_char_of_bytes) (auto dest: encode_rune_bytes)
    with Cons show ?case by (simp add: string_of_rune_def)
  qed
  with decode_runes_utf8[OF assms] show ?thesis by (simp add: runes_def)
qed

lemma letter_string: "j < 26 \<Longrightarrow> string_of_rune (j + 97) = [char_of (j + 97)]"
  by (simp add: string_of_rune_def encode_rune_def)

lemma replay_polls: "replay (replicate n (exists_call l) @ cs) buf = replay cs buf"
  by (induction n) (simp_all add: exists_call_def)

lemma replay_focus: "replay (focus_call l # cs) buf = replay cs buf"
  by (simp add: focus_call_def)

lemma elementExists_fields [simp]:
  "random (snd (elementExists l w)) = random w" "drawn (snd (elementExists l w)) = drawn w"
  "calls (snd (elementExists l w)) = calls w @ [exists_call l]"
  by (simp_all add: elementExists_eq)

lemma InnerText_found_now:
  assumes "with_response w (length (calls w)) = (0, Inr (exists_reply True))"
  shows "InnerText l w = InnerText_found l (snd (elementExists l w))"
proof -
  have "fst (elementExists l w) = (True, None)" using assms by (simp add: elementExists_eq)
  from poll_found[OF not_expired_at_start this] show ?thesis by (simp add: InnerText_def)
qed

section \<open>The claims\<close>

subsection \<open>C1: a selector that never matches\<close>

text \<open>
  Claim C1, as amended. When no existence check ever answers \<open>true\<close>, each of the five
  operations ends in \<^verbatim>\<open>log.Fatalf\<close> with the timeout message for its selector: the
  outcome is \<open>Fatal\<close>, the end of the process, and nothing is returned to the caller.
  That happens at the first test of the loop at which more than 30 seconds have passed
  since the call began, so never before the deadline; and when every existence check
  takes at most \<open>L\<close> and every sleep overruns by at most \<open>J\<close>, at most 30 seconds, one
  interval of 350 milliseconds, \<open>L\<close> and \<open>J\<close> after the call began.
\<close>

theorem missing_selector_ends_the_process:
  assumes "never_matches w"
    and "\<forall>k. fst (with_response w k) \<le> L" and "\<forall>t. overrun w t \<le> J"
  shows "\<exists>w1 w2 w3 w4 w5.
      Fill l val w = (Fatal (TimeoutExceeded (selector l)), w1)
    \<and> Click l w = (Fatal (TimeoutExceeded (selector l)), w2)
    \<and> TypeSequentially l text delayMs w = (Fatal (TimeoutExceeded (selector l)), w3)
    \<and> TypeWithMistakes l text delayMs w = (Fatal (TimeoutExceeded (selector l)), w4)
    \<and> InnerText l w = (Fatal (TimeoutExceeded (selector l)), w5)
    \<and> (\<forall>w'\<in>{w1, w2, w3, w4, w5}.
          timeout < Since (clock w) w'
          \<and> Since (clock w) w' \<le> timeout + interval + int L + int J)"
proof -
  from poll_never_start[OF assms, of l "Fill_found l val"] obtain w1 where
    1: "Fill l val w = (Fatal (TimeoutExceeded (selector l)), w1)"
       "timeout < Since (clock w) w1" "Since (clock w) w1 \<le> timeout + interval + int L + int J"
    by (auto simp: Fill_def)
  from poll_never_start[OF assms, of l "Click_found l"] obtain w2 where
    2: "Click l w = (Fatal (TimeoutExceeded (selector l)), w2)"
       "timeout < Since (clock w) w2" "Since (clock w) w2 \<le> timeout + interval + int L + int J"
    by (auto simp: Click_def)
  from poll_never_start[OF assms, of l "TypeSequentially_found l text delayMs"] obtain w3 where
    3: "TypeSequentially l text delayMs w = (Fatal (TimeoutExceeded (selector l)), w3)"
       "timeout < Since (clock w) w3" "Since (clock w) w3 \<le> timeout + interval + int L + int J"
    by (auto simp: TypeSequentially_def)
  from poll_never_start[OF assms, of l "TypeWithMistakes_found l text delayMs"] obtain w4 where
    4: "TypeWithMistakes l text delayMs w = (Fatal (TimeoutExceeded (selector l)), w4)"
       "timeout < Since (clock w) w4" "Since (clock w) w4 \<le> timeout + interval + int L + int J"
    by (auto simp: TypeWithMistakes_def)
  from poll_never_start[OF assms, of l "InnerText_found l"] obtain w5 where
    5: "InnerText l w = (Fatal (TimeoutExceeded (selector l)), w5)"
       "timeout < Since (clock w) w5" "Since (clock w) w5 \<le> timeout + interval + int L + int J"
    by (auto simp: InnerText_def)
  from 1 2 3 4 5 show ?thesis by blast
qed

text \<open>
  The theorem at a page whose existence checks answer \<open>false\<close> at once: \<^verbatim>\<open>Fill\<close> ends
  the process between 30 and 30.35 seconds after it began.
\<close>

theorem missing_selector_ends_the_process_witness:
  "never_matches (page_world (\<lambda>k. (0, Inr (exists_reply False))))
   \<and> (\<exists>w'. Fill \<lparr>selector = ''#missing''\<rparr> ''hello'' (page_world (\<lambda>k. (0, Inr (exists_reply False))))
            = (Fatal (TimeoutExceeded ''#missing''), w')
          \<and> 30000000000 < int (clock w') \<and> int (clock w') \<le> 30350000000)"
proof -
  let ?w = "page_world (\<lambda>k. (0, Inr (exists_reply False)))"
  have n: "never_matches ?w" by (simp add: never_matches_def page_world_def)
  have l: "\<forall>k. fst (with_response ?w k) \<le> 0" by (simp add: page_world_def)
  have j: "\<forall>t. overrun ?w t \<le> 0" by (simp add: page_world_def)
  from missing_selector_ends_the_process[OF n l j, of "\<lparr>selector = ''#missing''\<rparr>" "''hello''"]
  obtain w1 where "Fill \<lparr>selector = ''#missing''\<rparr> ''hello'' ?w = (Fatal (TimeoutExceeded ''#missing''), w1)"
    "timeout < Since (clock ?w) w1" "Since (clock ?w) w1 \<le> timeout + interval + int 0 + int 0"
    by auto
  then have "Fill \<lparr>selector = ''#missing''\<rparr> ''hello'' ?w = (Fatal (TimeoutExceeded ''#missing''), w1)
          \<and> 30000000000 < int (clock w1) \<and> int (clock w1) \<le> 30350000000"
    by (simp add: Since_def timeout_def interval_def Second_def Millisecond_def page_world_def)
  with n show ?thesis by blast
qed

text \<open>
  Claim C1 as stated fails. With an existence check that takes 60 seconds to answer
  \<open>false\<close>, \<^verbatim>\<open>Fill\<close> ends 60.35 seconds after it began, later than the deadline plus
  one interval; and it ends in \<open>Fatal\<close>, the process abort of \<^verbatim>\<open>log.Fatalf\<close>, with
  no value or error handed to the caller.
\<close>

theorem missing_selector_slow_check_counterexample:
  "never_matches slow_page
   \<and> Fill \<lparr>selector = ''#missing''\<rparr> ''hello'' slow_page
     = (Fatal (TimeoutExceeded ''#missing''),
        slow_page\<lparr>calls := [exists_call \<lparr>selector = ''#missing''\<rparr>], clock := 60350000000\<rparr>)
   \<and> \<not> (60350000000 \<le> timeout + interval)"
proof -
  let ?l = "\<lparr>selector = ''#missing''\<rparr>"
  let ?w = "slow_page"
  have n: "never_matches ?w" by (simp add: never_matches_def slow_page_def page_world_def)
  have 0: "\<not> timeout < Since (clock ?w) ?w"
    by (simp add: Since_def timeout_def Second_def)
  have 1: "fst (elementExists ?l ?w) \<noteq> (True, None)"
    by (simp add: elementExists_eq slow_page_def page_world_def)
  have w1: "next_round ?l ?w = ?w\<lparr>calls := [exists_call ?l], clock := 60350000000\<rparr>"
    by (simp add: next_round_def elementExists_eq Sleep_interval slow_page_def page_world_def)
  have 2: "timeout < Since (clock ?w) (next_round ?l ?w)"
    by (subst w1) (simp add: Since_def timeout_def Second_def slow_page_def page_world_def)
  have "Fill ?l ''hello'' ?w = poll ?l (Fill_found ?l ''hello'') (clock ?w) (next_round ?l ?w)"
    unfolding Fill_def by (rule poll_retry[OF 0 1])
  also have "\<dots> = (Fatal (TimeoutExceeded (selector ?l)), next_round ?l ?w)"
    by (rule poll_timeout[OF 2])
  finally have f: "Fill ?l ''hello'' ?w
      = (Fatal (TimeoutExceeded ''#missing''),
         ?w\<lparr>calls := [exists_call ?l], clock := 60350000000\<rparr>)"
    by (simp add: w1)
  have b: "\<not> (60350000000 \<le> timeout + interval)"
    by (simp add: timeout_def interval_def Second_def Millisecond_def)
  from n f b show ?thesis by blast
qed

subsection \<open>C2: the shape InnerText reads\<close>

text \<open>
  Claim C2. \<^verbatim>\<open>InnerText\<close> reads \<^verbatim>\<open>response["result"]["value"]\<close>, one level short of
  the shape \<^verbatim>\<open>{id, result: {result: {value}}}\<close> that \<^verbatim>\<open>elementExists\<close> reads for the
  same \<^verbatim>\<open>Runtime.evaluate\<close> command. On a well-formed reply of the doubly nested shape
  it ends the process with the unexpected-format message; on a reply that carries the
  string one level higher it returns the string.
\<close>

theorem InnerText_rejects_the_evaluate_shape:
  "InnerText \<lparr>selector = ''h1''\<rparr>
     (page_world (\<lambda>k. if k = 0 then (0, Inr (exists_reply True)) else (0, Inr innerText_reply)))
   = (Fatal (UnexpectedInnerTextFormat innerText_reply),
      (page_world (\<lambda>k. if k = 0 then (0, Inr (exists_reply True)) else (0, Inr innerText_reply)))
        \<lparr>calls := [exists_call \<lparr>selector = ''h1''\<rparr>, innerText_call \<lparr>selector = ''h1''\<rparr>]\<rparr>)
   \<and> InnerText \<lparr>selector = ''h1''\<rparr>
     (page_world (\<lambda>k. if k = 0 then (0, Inr (exists_reply True)) else (0, Inr flat_reply)))
   = (Returned ''Hello'',
      (page_world (\<lambda>k. if k = 0 then (0, Inr (exists_reply True)) else (0, Inr flat_reply)))
        \<lparr>calls := [exists_call \<lparr>selector = ''h1''\<rparr>, innerText_call \<lparr>selector = ''h1''\<rparr>]\<rparr>)"
proof (intro conjI)
  let ?l = "\<lparr>selector = ''h1''\<rparr>"
  let ?w = "page_world (\<lambda>k. if k = 0 then (0, Inr (exists_reply True)) else (0, Inr innerText_reply))"
  have "with_response ?w (length (calls ?w)) = (0, Inr (exists_reply True))"
    by (simp add: page_world_def)
  from InnerText_found_now[OF this, of ?l]
  show "InnerText ?l ?w = (Fatal (UnexpectedInnerTextFormat innerText_reply),
      ?w\<lparr>calls := [exists_call ?l, innerText_call ?l]\<rparr>)"
    by (simp add: InnerText_found_def browser_SendCommandWithResponse_def elementExists_eq
          page_world_def innerText_reply_def index_def innerText_call_def)
next
  let ?l = "\<lparr>selector = ''h1''\<rparr>"
  let ?w = "page_world (\<lambda>k. if k = 0 then (0, Inr (exists_reply True)) else (0, Inr flat_reply))"
  have "with_response ?w (length (calls ?w)) = (0, Inr (exists_reply True))"
    by (simp add: page_world_def)
  from InnerText_found_now[OF this, of ?l]
  show "InnerText ?l ?w = (Returned ''Hello'',
      ?w\<lparr>calls := [exists_call ?l, innerText_call ?l]\<rparr>)"
    by (simp add: InnerText_found_def browser_SendCommandWithResponse_def elementExists_eq
          page_world_def flat_reply_def index_def innerText_call_def)
qed

subsection \<open>C3: the response is the first frame with the call's identifier\<close>

text \<open>
  Claim C3, as amended. A call of \<^verbatim>\<open>SendCommandWithResponse\<close> that returns a response
  returns the first inbound frame that decodes to an object whose \<open>id\<close>, converted to
  \<^verbatim>\<open>int\<close>, is the identifier of the call; every frame before it was discarded, because
  it did not decode (and was logged) or because its \<open>id\<close> was absent, not a number or a
  different one. A call that returns an error does so because no connection existed and
  the reconnection failed, because the write failed, or because a read failed after only
  discarded frames. Conversely, with a connection, a successful write and such a frame in
  the queue behind discarded frames only, the call returns that frame, leaves the frames
  after it in the queue and has logged the frames that did not decode. The conversion
  drops the fraction of the \<open>id\<close>: a number within the range of \<^verbatim>\<open>int\<close> matches the
  identifier that equals its whole part, and a frame whose \<open>id\<close> is not a number matches
  no identifier.
\<close>

theorem response_is_first_matching_frame:
  "(SendCommandWithResponse um m p b w = Some (res, b', w') \<longrightarrow>
      (case res of
         Inr response \<Rightarrow>
           \<exists>pre data. inbound w = pre @ Message data # inbound w'
             \<and> (\<forall>f\<in>set pre. discarded um (messageID b + 1) f)
             \<and> um data = Some response \<and> id_matches response (messageID b + 1)
       | Inl err \<Rightarrow>
           (\<exists>e. err = ReconnectFailed e \<and> conn b = None \<and> inbound w' = inbound w)
         \<or> (\<exists>s. err = SendFailed s \<and> inbound w' = inbound w)
         \<or> (\<exists>s pre. err = ReadFailed s \<and> inbound w = pre @ ReadError s # inbound w'
               \<and> (\<forall>f\<in>set pre. discarded um (messageID b + 1) f))))
   \<and> (conn br = Some c \<and> ws_write wr (length (events wr)) = None
        \<and> inbound wr = pre @ Message data # rest
        \<and> (\<forall>f\<in>set pre. discarded um (messageID br + 1) f)
        \<and> um data = Some response \<and> id_matches response (messageID br + 1) \<longrightarrow>
      SendCommandWithResponse um mr pr br wr =
        Some (Inr response, br\<lparr>messageID := messageID br + 1\<rparr>,
              wr\<lparr>inbound := rest,
                 events := events wr @
                   EWrite (endpoint c)
                     \<lparr>env_id = messageID br + 1, env_method = mr, env_params = pr\<rparr> True
                   # parse_logs um pre\<rparr>))
   \<and> (index fr ''id'' = GoFloat64 num \<and> - (2 ^ 63) - 1 < num \<and> num < 2 ^ 63 \<longrightarrow>
      id_matches fr ident = (sint ident = (if num < 0 then - \<lfloor>- num\<rfloor> else \<lfloor>num\<rfloor>)))
   \<and> ((\<forall>x. index other ''id'' \<noteq> GoFloat64 x) \<longrightarrow> \<not> id_matches other jdent)"
proof (intro conjI impI)
  assume a: "SendCommandWithResponse um m p b w = Some (res, b', w')"
  then show "case res of
         Inr response \<Rightarrow>
           \<exists>pre data. inbound w = pre @ Message data # inbound w'
             \<and> (\<forall>f\<in>set pre. discarded um (messageID b + 1) f)
             \<and> um data = Some response \<and> id_matches response (messageID b + 1)
       | Inl err \<Rightarrow>
           (\<exists>e. err = ReconnectFailed e \<and> conn b = None \<and> inbound w' = inbound w)
         \<or> (\<exists>s. err = SendFailed s \<and> inbound w' = inbound w)
         \<or> (\<exists>s pre. err = ReadFailed s \<and> inbound w = pre @ ReadError s # inbound w'
               \<and> (\<forall>f\<in>set pre. discarded um (messageID b + 1) f))"
  proof (cases rule: with_cases)
    case (reconnect e)
    from ensure_conn_shape[OF reconnect(3)] reconnect(1,2) show ?thesis by simp
  next
    case (send c w2 s)
    from ensure_conn_shape[OF send(1)] WriteJSON_shape[OF send(3)] send(4) show ?thesis by simp
  next
    case (read c w2 w3)
    from ensure_conn_shape[OF read(1)] WriteJSON_shape[OF read(3)]
    have i: "inbound w3 = inbound w" by simp
    from read_loop_sound[OF read(4)] i obtain pre f where
      s: "inbound w = pre @ f # inbound w'" "\<forall>g\<in>set pre. discarded um (messageID b + 1) g"
      and f: "\<not> discarded um (messageID b + 1) f" and r: "res = deliver um f" by auto
    from deliver_cases[OF f] show ?thesis
    proof (elim disjE exE conjE)
      fix e assume "f = ReadError e" "deliver um f = Inl (ReadFailed e)"
      with s r show ?thesis by auto
    next
      fix data response assume "f = Message data" "um data = Some response"
        "id_matches response (messageID b + 1)" "deliver um f = Inr response"
      with s r show ?thesis by auto
    qed
  qed
next
  assume h: "conn br = Some c \<and> ws_write wr (length (events wr)) = None
        \<and> inbound wr = pre @ Message data # rest
        \<and> (\<forall>f\<in>set pre. discarded um (messageID br + 1) f)
        \<and> um data = Some response \<and> id_matches response (messageID br + 1)"
  let ?msg = "\<lparr>env_id = messageID br + 1, env_method = mr, env_params = pr\<rparr>"
  let ?w3 = "emit (EWrite (endpoint c) ?msg True) wr"
  have nd: "\<not> discarded um (messageID br + 1) (Message data)"
    using h by (simp add: discarded_def)
  have "inbound ?w3 = pre @ Message data # rest" using h by (simp add: emit_simps)
  from read_loop_complete[OF this _ nd] h
  have "read_loop um (messageID br + 1) ?w3 =
      Some (Inr response, ?w3\<lparr>inbound := rest, events := events ?w3 @ parse_logs um pre\<rparr>)"
    by (simp add: deliver_def)
  with h show "SendCommandWithResponse um mr pr br wr =
        Some (Inr response, br\<lparr>messageID := messageID br + 1\<rparr>,
              wr\<lparr>inbound := rest,
                 events := events wr @
                   EWrite (endpoint c) ?msg True # parse_logs um pre\<rparr>)"
    by (simp add: SendCommandWithResponse_def next_id_def ensure_conn_def WriteJSON_def emit_def)
next
  assume "index fr ''id'' = GoFloat64 num \<and> - (2 ^ 63) - 1 < num \<and> num < 2 ^ 63"
  then show "id_matches fr ident
      = (sint ident = (if num < 0 then - \<lfloor>- num\<rfloor> else \<lfloor>num\<rfloor>))"
    using id_matches_in_range[of fr num ident] by blast
next
  assume "\<forall>x. index other ''id'' \<noteq> GoFloat64 x"
  then show "\<not> id_matches other jdent" by (rule id_matches_number)
qed

text \<open>
  The theorem at a queue that holds an undecodable frame, an event, the reply to another
  call, the reply to this call, and more behind it; and at the four kinds of frame the
  decoder knows.
\<close>

theorem response_is_first_matching_frame_witness:
  "SendCommandWithResponse example_unmarshal ''Runtime.evaluate'' None attached
     (scripted (\<lambda>k. listing) (\<lambda>k. None)
        [Message ''not json'', Message ''event'', Message ''reply 2'', Message ''reply 1'',
         Message ''reply 1'', ReadError ''eof''])
   = Some (Inr [(''id'', GoFloat64 1), (''result'', GoMap [])], attached\<lparr>messageID := 1\<rparr>,
       \<lparr>events = [EWrite page_endpoint
                    \<lparr>env_id = 1, env_method = ''Runtime.evaluate'', env_params = None\<rparr> True,
                  LogParseFailed ''not json''],
        http_get = (\<lambda>k. listing), ws_dial = (\<lambda>k u. None), ws_write = (\<lambda>k. None),
        inbound = [Message ''reply 1'', ReadError ''eof'']\<rparr>)
   \<and> (\<exists>pre data.
         [Message ''not json'', Message ''event'', Message ''reply 2'', Message ''reply 1'',
          Message ''reply 1'', ReadError ''eof'']
           = pre @ Message data # [Message ''reply 1'', ReadError ''eof'']
       \<and> (\<forall>f\<in>set pre. discarded example_unmarshal 1 f)
       \<and> example_unmarshal data = Some [(''id'', GoFloat64 1), (''result'', GoMap [])])
   \<and> id_matches [(''id'', GoFloat64 1), (''result'', GoMap [])] 1
   \<and> \<not> id_matches [(''id'', GoFloat64 2), (''result'', GoMap [])] 1
   \<and> id_matches [(''id'', GoFloat64 (3 / 2)), (''result'', GoMap [])] 1
   \<and> \<not> id_matches [(''method'', GoString ''Page.loadEventFired'')] 1"
proof -
  let ?w = "scripted (\<lambda>k. listing) (\<lambda>k. None)
        [Message ''not json'', Message ''event'', Message ''reply 2'', Message ''reply 1'',
         Message ''reply 1'', ReadError ''eof'']"
  have h: "conn attached = Some \<lparr>endpoint = page_endpoint, closed = False\<rparr>
        \<and> ws_write ?w (length (events ?w)) = None
        \<and> inbound ?w = [Message ''not json'', Message ''event'', Message ''reply 2'']
             @ Message ''reply 1'' # [Message ''reply 1'', ReadError ''eof'']
        \<and> (\<forall>f\<in>set [Message ''not json'', Message ''event'', Message ''reply 2''].
              discarded example_unmarshal (messageID attached + 1) f)
        \<and> example_unmarshal ''reply 1'' = Some [(''id'', GoFloat64 1), (''result'', GoMap [])]
        \<and> id_matches [(''id'', GoFloat64 1), (''result'', GoMap [])] (messageID attached + 1)"
    by (simp add: attached_def unattached_def scripted_def discarded_def example_unmarshal_def
          id_matches_def index_def float64_to_int_def)
  from response_is_first_matching_frame[THEN conjunct2, THEN conjunct1, THEN mp, OF h,
      of "''Runtime.evaluate''" None]
  have r: "SendCommandWithResponse example_unmarshal ''Runtime.evaluate'' None attached ?w
      = Some (Inr [(''id'', GoFloat64 1), (''result'', GoMap [])], attached\<lparr>messageID := 1\<rparr>,
       \<lparr>events = [EWrite page_endpoint
                    \<lparr>env_id = 1, env_method = ''Runtime.evaluate'', env_params = None\<rparr> True,
                  LogParseFailed ''not json''],
        http_get = (\<lambda>k. listing), ws_dial = (\<lambda>k u. None), ws_write = (\<lambda>k. None),
        inbound = [Message ''reply 1'', ReadError ''eof'']\<rparr>)"
    by (simp add: attached_def unattached_def scripted_def example_unmarshal_def)
  from response_is_first_matching_frame[THEN conjunct1, THEN mp, OF r]
  have "\<exists>pre data.
         [Message ''not json'', Message ''event'', Message ''reply 2'', Message ''reply 1'',
          Message ''reply 1'', ReadError ''eof'']
           = pre @ Message data # [Message ''reply 1'', ReadError ''eof'']
       \<and> (\<forall>f\<in>set pre. discarded example_unmarshal 1 f)
       \<and> example_unmarshal data = Some [(''id'', GoFloat64 1), (''result'', GoMap [])]"
    by (auto simp: attached_def unattached_def scripted_def)
  moreover
  note whole = response_is_first_matching_frame[where ident = 1, THEN conjunct2,
      THEN conjunct2, THEN conjunct1, THEN mp]
  have "index [(''id'', GoFloat64 1), (''result'', GoMap [])] ''id'' = GoFloat64 1
      \<and> - (2 ^ 63) - 1 < (1::rat) \<and> (1::rat) < 2 ^ 63"
    by (simp add: index_def)
  from whole[OF this]
  have "id_matches [(''id'', GoFloat64 1), (''result'', GoMap [])] 1" by simp
  moreover
  have "index [(''id'', GoFloat64 2), (''result'', GoMap [])] ''id'' = GoFloat64 2
      \<and> - (2 ^ 63) - 1 < (2::rat) \<and> (2::rat) < 2 ^ 63"
    by (simp add: index_def)
  from whole[OF this]
  have "\<not> id_matches [(''id'', GoFloat64 2), (''result'', GoMap [])] 1" by simp
  moreover
  have "index [(''id'', GoFloat64 (3 / 2)), (''result'', GoMap [])] ''id'' = GoFloat64 (3 / 2)
      \<and> - (2 ^ 63) - 1 < (3 / 2 :: rat) \<and> (3 / 2 :: rat) < 2 ^ 63"
    by (simp add: index_def)
  from whole[OF this]
  have "id_matches [(''id'', GoFloat64 (3 / 2)), (''result'', GoMap [])] 1"
    by (simp add: floor_three_halves)
  moreover
  have "\<forall>x. index [(''method'', GoString ''Page.loadEventFired'')] ''id'' \<noteq> GoFloat64 x"
    by (simp add: index_def)
  from response_is_first_matching_frame[where jdent = 1, THEN conjunct2, THEN conjunct2,
      THEN conjunct2, THEN mp, OF this]
  have "\<not> id_matches [(''method'', GoString ''Page.loadEventFired'')] 1" .
  ultimately show ?thesis using r by blast
qed

text \<open>
  Claim C3 as stated fails in two places. With no connection and a page listing that
  names no suitable page the call fails with an error although nothing was read from or
  written to any connection. And the call with identifier 1 returns a frame whose
  \<open>id\<close> is 1.5, ahead of the frame whose \<open>id\<close> is 1.
\<close>

theorem reconnect_error_and_fractional_id_counterexample:
  "SendCommandWithResponse example_unmarshal ''Runtime.evaluate'' None unattached no_page
   = Some (Inl (ReconnectFailed NoSuitablePage), unattached\<lparr>messageID := 1\<rparr>,
           no_page\<lparr>events := [EGet]\<rparr>)
   \<and> SendCommandWithResponse example_unmarshal ''Runtime.evaluate'' None attached fraction_first
   = Some (Inr [(''id'', GoFloat64 (3 / 2)), (''result'', GoMap [])], attached\<lparr>messageID := 1\<rparr>,
           fraction_first
             \<lparr>events := [EWrite page_endpoint
                 \<lparr>env_id = 1, env_method = ''Runtime.evaluate'', env_params = None\<rparr> True],
              inbound := [Message ''reply 1'']\<rparr>)"
proof (intro conjI)
  show "SendCommandWithResponse example_unmarshal ''Runtime.evaluate'' None unattached no_page
   = Some (Inl (ReconnectFailed NoSuitablePage), unattached\<lparr>messageID := 1\<rparr>,
           no_page\<lparr>events := [EGet]\<rparr>)"
    by (simp add: browser_defs no_page_def)
  show "SendCommandWithResponse example_unmarshal ''Runtime.evaluate'' None attached fraction_first
   = Some (Inr [(''id'', GoFloat64 (3 / 2)), (''result'', GoMap [])], attached\<lparr>messageID := 1\<rparr>,
           fraction_first
             \<lparr>events := [EWrite page_endpoint
                 \<lparr>env_id = 1, env_method = ''Runtime.evaluate'', env_params = None\<rparr> True],
              inbound := [Message ''reply 1'']\<rparr>)"
    by (simp add: browser_defs fraction_first_def, subst read_loop.simps,
        simp add: ReadMessage_def example_unmarshal_def id_matches_def index_def
          float64_to_int_def Let_def floor_three_halves)
qed

subsection \<open>C4: identifiers under interleaving and reconnection\<close>




subsection \<open>C5: reconnection before the write\<close>

text \<open>
  Claim C5, as amended. When the session holds no connection (\<^verbatim>\<open>b.conn == nil\<close>), either
  send path makes one attempt to reconnect before it writes: one request for the page
  listing and at most one dial. When the attempt fails the call returns the reconnection
  error and nothing is written. When it succeeds the envelope is written to the fresh
  connection, and the call then goes on as it does with a connection in place: a failed
  write is returned as the write error, and after a successful write the path without a
  response has succeeded, while the path with a response goes on to read its reply.
\<close>

theorem reconnects_once_when_no_connection:
  assumes "conn b = None"
  shows "(SendCommandWithoutResponse m p b w = (err, b', w') \<longrightarrow>
           (\<exists>e. err = Some (ReconnectFailed e) \<and>
              (events w' = events w @ [EGet] \<or> (\<exists>u. events w' = events w @ [EGet, EDial u])))
         \<or> (\<exists>u v. events w' = events w @
                [EGet, EDial u, LogConnected v,
                 EWrite u \<lparr>env_id = messageID b + 1, env_method = m, env_params = p\<rparr> (err = None)]
              \<and> conn b' = Some \<lparr>endpoint = u, closed = False\<rparr>
              \<and> (err = None \<or> (\<exists>s. err = Some (SendFailed s)))))
      \<and> (SendCommandWithResponse um mr pr b wr = Some (res, br', wr') \<longrightarrow>
           (\<exists>e. res = Inl (ReconnectFailed e) \<and>
              (events wr' = events wr @ [EGet] \<or> (\<exists>u. events wr' = events wr @ [EGet, EDial u])))
         \<or> (\<exists>u v ok pre. events wr' = events wr @
                [EGet, EDial u, LogConnected v,
                 EWrite u \<lparr>env_id = messageID b + 1, env_method = mr, env_params = pr\<rparr> ok]
                @ parse_logs um pre
              \<and> conn br' = Some \<lparr>endpoint = u, closed = False\<rparr>
              \<and> (ok \<longleftrightarrow> (\<forall>s. res \<noteq> Inl (SendFailed s)))))"
proof (intro conjI impI)
  let ?b1 = "b\<lparr>messageID := messageID b + 1\<rparr>"
  have n: "conn ?b1 = None" using assms by simp
  assume "SendCommandWithoutResponse m p b w = (err, b', w')"
  then show "(\<exists>e. err = Some (ReconnectFailed e) \<and>
              (events w' = events w @ [EGet] \<or> (\<exists>u. events w' = events w @ [EGet, EDial u])))
         \<or> (\<exists>u v. events w' = events w @
                [EGet, EDial u, LogConnected v,
                 EWrite u \<lparr>env_id = messageID b + 1, env_method = m, env_params = p\<rparr> (err = None)]
              \<and> conn b' = Some \<lparr>endpoint = u, closed = False\<rparr>
              \<and> (err = None \<or> (\<exists>s. err = Some (SendFailed s))))"
  proof (cases rule: without_cases)
    case (reconnect e)
    from ensure_conn_shape[OF reconnect(3)] n reconnect(2) show ?thesis by auto
  next
    case (written c w2 wr)
    from ensure_conn_shape[OF written(1)] n obtain u v where
      e: "events w2 = events w @ [EGet, EDial u, LogConnected v]"
      and c: "conn b' = Some \<lparr>endpoint = u, closed = False\<rparr>" by auto
    from WriteJSON_shape[OF written(3)] written(2,4) e c
    have "events w' = events w @
                [EGet, EDial u, LogConnected v,
                 EWrite u \<lparr>env_id = messageID b + 1, env_method = m, env_params = p\<rparr> (err = None)]
              \<and> conn b' = Some \<lparr>endpoint = u, closed = False\<rparr>
              \<and> (err = None \<or> (\<exists>s. err = Some (SendFailed s)))"
      by (cases wr) auto
    then show ?thesis by blast
  qed
next
  let ?b1 = "b\<lparr>messageID := messageID b + 1\<rparr>"
  have n: "conn ?b1 = None" using assms by simp
  assume "SendCommandWithResponse um mr pr b wr = Some (res, br', wr')"
  then show "(\<exists>e. res = Inl (ReconnectFailed e) \<and>
              (events wr' = events wr @ [EGet] \<or> (\<exists>u. events wr' = events wr @ [EGet, EDial u])))
         \<or> (\<exists>u v ok pre. events wr' = events wr @
                [EGet, EDial u, LogConnected v,
                 EWrite u \<lparr>env_id = messageID b + 1, env_method = mr, env_params = pr\<rparr> ok]
                @ parse_logs um pre
              \<and> conn br' = Some \<lparr>endpoint = u, closed = False\<rparr>
              \<and> (ok \<longleftrightarrow> (\<forall>s. res \<noteq> Inl (SendFailed s))))"
  proof (cases rule: with_cases)
    case (reconnect e)
    from ensure_conn_shape[OF reconnect(3)] n reconnect(2) show ?thesis by auto
  next
    case (send c w2 s)
    from ensure_conn_shape[OF send(1)] n obtain u v where
      e: "events w2 = events wr @ [EGet, EDial u, LogConnected v]"
      and c: "conn br' = Some \<lparr>endpoint = u, closed = False\<rparr>" by auto
    from WriteJSON_shape[OF send(3)] send(2,4) e c
    have "events wr' = events wr @
                [EGet, EDial u, LogConnected v,
                 EWrite u \<lparr>env_id = messageID b + 1, env_method = mr, env_params = pr\<rparr> False]
                @ parse_logs um []
              \<and> conn br' = Some \<lparr>endpoint = u, closed = False\<rparr>
              \<and> (False \<longleftrightarrow> (\<forall>s. res \<noteq> Inl (SendFailed s)))"
      by auto
    then show ?thesis by blast
  next
    case (read c w2 w3)
    from ensure_conn_shape[OF read(1)] n obtain u v where
      e: "events w2 = events wr @ [EGet, EDial u, LogConnected v]"
      and c: "conn br' = Some \<lparr>endpoint = u, closed = False\<rparr>" by auto
    from read_loop_sound[OF read(4)] obtain pre f where
      f: "\<not> discarded um (messageID b + 1) f" "res = deliver um f" by blast
    then have nres: "\<forall>s. res \<noteq> Inl (SendFailed s)"
      by (cases f) (auto simp: deliver_def split: option.splits)
    from read_loop_events[OF read(4)] obtain pre where "events wr' = events w3 @ parse_logs um pre"
      by blast
    with WriteJSON_shape[OF read(3)] read(2) e c nres
    have "events wr' = events wr @
                [EGet, EDial u, LogConnected v,
                 EWrite u \<lparr>env_id = messageID b + 1, env_method = mr, env_params = pr\<rparr> True]
                @ parse_logs um pre
              \<and> conn br' = Some \<lparr>endpoint = u, closed = False\<rparr>
              \<and> (True \<longleftrightarrow> (\<forall>s. res \<noteq> Inl (SendFailed s)))"
      by auto
    then show ?thesis by blast
  qed
qed

text \<open>
  The theorem at a session without a connection: a command sent while the browser lists
  its page, and a command sent while the listing cannot be fetched.
\<close>

theorem reconnects_once_when_no_connection_witness:
  "conn unattached = None
   \<and> SendCommandWithoutResponse ''Page.enable'' None unattached
        online
     = (None, attached\<lparr>messageID := 1\<rparr>,
        online
          \<lparr>events := [EGet, EDial page_endpoint, LogConnected (GoString ''about:blank''),
                      EWrite page_endpoint
                        \<lparr>env_id = 1, env_method = ''Page.enable'', env_params = None\<rparr> True]\<rparr>)
   \<and> SendCommandWithResponse example_unmarshal ''Runtime.evaluate'' None unattached
        offline
     = Some (Inl (ReconnectFailed (FetchPagesFailed ''refused'')), unattached\<lparr>messageID := 1\<rparr>,
        offline\<lparr>events := [EGet]\<rparr>)"
proof -
  let ?w = "online"
  let ?v = "offline"
  have n: "conn unattached = None" by (simp add: unattached_def)
  have 1: "SendCommandWithoutResponse ''Page.enable'' None unattached ?w
     = (None, attached\<lparr>messageID := 1\<rparr>,
        ?w\<lparr>events := [EGet, EDial page_endpoint, LogConnected (GoString ''about:blank''),
                      EWrite page_endpoint
                        \<lparr>env_id = 1, env_method = ''Page.enable'', env_params = None\<rparr> True]\<rparr>)"
    by (simp add: browser_defs online_def offline_def)
  have 2: "SendCommandWithResponse example_unmarshal ''Runtime.evaluate'' None unattached ?v
     = Some (Inl (ReconnectFailed (FetchPagesFailed ''refused'')), unattached\<lparr>messageID := 1\<rparr>,
        ?v\<lparr>events := [EGet]\<rparr>)"
    by (simp add: browser_defs online_def offline_def)
  from reconnects_once_when_no_connection[OF n, THEN conjunct1, rule_format, OF 1]
    reconnects_once_when_no_connection[OF n, THEN conjunct2, rule_format, OF 2]
    n 1 2
  show ?thesis by blast
qed

text \<open>
  Claim C5 as stated fails. A session whose connection has been closed still holds it:
  \<^verbatim>\<open>b.conn\<close> is not nil, no reconnection is attempted although the browser lists its
  page, and the command fails on the write.
\<close>

theorem closed_connection_is_not_reconnected_counterexample:
  "SendCommandWithoutResponse ''Page.enable'' None
     (attached\<lparr>conn := Some \<lparr>endpoint = page_endpoint, closed = True\<rparr>\<rparr>) broken_pipe
   = (Some (SendFailed ''use of closed network connection''),
      attached\<lparr>conn := Some \<lparr>endpoint = page_endpoint, closed = True\<rparr>, messageID := 1\<rparr>,
      broken_pipe\<lparr>events := [EWrite page_endpoint
                       \<lparr>env_id = 1, env_method = ''Page.enable'', env_params = None\<rparr> False]\<rparr>)"
  by (simp add: browser_defs broken_pipe_def)

subsection \<open>C6: typing with mistakes\<close>

text \<open>
  Claim C6. When \<^verbatim>\<open>TypeWithMistakes\<close> returns, the calls it made are the existence
  checks, the focus command and then, for each rune of the text in order, either the
  insertion of the rune, or the insertion of a wrong letter, one Backspace key event and
  the insertion of the rune. The wrong letter is inserted exactly when the draw of
  \<^verbatim>\<open>rand.Float32()\<close> is below 0.4, and it is the letter \<open>'a' + j\<close> for the draw
  \<open>j < 26\<close> of \<^verbatim>\<open>rand.Int31n(26)\<close>. Whatever the random source yields, replaying the
  calls against an empty text field gives the runes of the text, as \<^verbatim>\<open>range\<close> yields
  them; for a text that is the UTF-8 encoding of Unicode scalar values these are the
  values it encodes.
\<close>

theorem mistakes_are_typed_and_corrected:
  assumes "TypeWithMistakes l text delayMs w = (Returned (), w')"
  shows "\<exists>n ms. ms = mistakes (random w) (drawn w) (length (runes text))
      \<and> calls w' = calls w @ replicate (Suc n) (exists_call l) @ focus_call l
                      # typed_with (runes text) ms
      \<and> replay (drop (length (calls w)) (calls w')) [] = runes text
      \<and> (\<forall>j. Some j \<in> set ms \<longrightarrow> j < 26 \<and> string_of_rune (j + 97) = [char_of (j + 97)])
      \<and> (\<forall>rs. (\<forall>r\<in>set rs. valid_rune r) \<and> text = concat (map string_of_rune rs) \<longrightarrow>
             replay (drop (length (calls w)) (calls w')) [] = rs)"
proof -
  let ?ms = "mistakes (random w) (drawn w) (length (runes text))"
  from assms have "poll l (TypeWithMistakes_found l text delayMs) (clock w) w = (Returned (), w')"
    by (simp add: TypeWithMistakes_def)
  from poll_cases[OF this] obtain w0 n where
    f: "TypeWithMistakes_found l text delayMs (snd (elementExists l w0)) = (Returned (), w')"
    and c: "calls w0 = calls w @ replicate n (exists_call l)"
    and s: "same_scripts w w0" and d: "drawn w0 = drawn w" by auto
  let ?w1 = "snd (browser_SendCommandWithoutResponse ''Runtime.evaluate'' (Some (focus_params l))
                (snd (elementExists l w0)))"
  from f have w': "w' = mistype_runes (runes text) delayMs ?w1"
    by (simp add: TypeWithMistakes_found_def case_prod_beta)
  have r: "random ?w1 = random w" "drawn ?w1 = drawn w" using s d by (simp_all add: same_scripts_def)
  have c1: "calls ?w1 = calls w @ replicate (Suc n) (exists_call l) @ [focus_call l]"
    using c by (simp add: focus_call_def replicate_append_same)
  from mistype_runes_fields[of "runes text" delayMs ?w1]
  have cw: "calls w' = calls w @ replicate (Suc n) (exists_call l) @ focus_call l
                      # typed_with (runes text) ?ms"
    unfolding w' r c1 by simp
  have rng: "\<forall>j. Some j \<in> set ?ms \<longrightarrow> j < 26" using mistakes_range by blast
  have "replay (typed_with (runes text) ?ms) [] = [] @ runes text"
    by (rule replay_typed_with) (use rng runes_valid in auto)
  then have rp: "replay (drop (length (calls w)) (calls w')) [] = runes text"
    unfolding cw using replay_polls[of "Suc n" l "focus_call l # typed_with (runes text) ?ms" "[]"]
    by (simp add: replay_focus)
  have "\<forall>rs. (\<forall>r\<in>set rs. valid_rune r) \<and> text = concat (map string_of_rune rs) \<longrightarrow>
             replay (drop (length (calls w)) (calls w')) [] = rs"
    using rp runes_utf8 by auto
  with cw rp rng letter_string show ?thesis by blast
qed

text \<open>
  The theorem at a random source whose first draw triggers a mistake: typing \<open>hi\<close>
  inserts \<open>n\<close>, deletes it, then inserts \<open>h\<close> and \<open>i\<close>.
\<close>

theorem mistakes_are_typed_and_corrected_witness:
  "\<exists>w'. TypeWithMistakes \<lparr>selector = ''#q''\<rparr> ''hi'' 10 clumsy_world = (Returned (), w')
     \<and> calls w' =
         [exists_call \<lparr>selector = ''#q''\<rparr>, focus_call \<lparr>selector = ''#q''\<rparr>,
          insert_call ''n'', backspace_call, insert_call ''h'', insert_call ''i'']
     \<and> replay (calls w') [] = runes ''hi''
     \<and> replay (calls w') [] = [104, 105]"
proof -
  let ?l = "\<lparr>selector = ''#q''\<rparr>"
  have e: "fst (elementExists ?l clumsy_world) = (True, None)"
    by (simp add: elementExists_eq clumsy_world_def page_world_def)
  obtain out w' where
    f: "TypeWithMistakes_found ?l ''hi'' 10 (snd (elementExists ?l clumsy_world)) = (out, w')"
    by (cases "TypeWithMistakes_found ?l ''hi'' 10 (snd (elementExists ?l clumsy_world))")
  then have o: "out = Returned ()" by (auto simp: TypeWithMistakes_found_def case_prod_beta)
  from poll_found[OF not_expired_at_start e, of "TypeWithMistakes_found ?l ''hi'' 10"] f o
  have t: "TypeWithMistakes ?l ''hi'' 10 clumsy_world = (Returned (), w')"
    by (simp add: TypeWithMistakes_def)
  have r: "runes ''hi'' = [104, 105]" by (simp add: runes_def)
  have m: "mistakes (random clumsy_world) (drawn clumsy_world) (length (runes ''hi''))
      = [Some 13, None]"
    by (simp add: r clumsy_world_def page_world_def float32_0_4_def)
  have s: "string_of_rune 110 = ''n''" "string_of_rune 104 = ''h''" "string_of_rune 105 = ''i''"
    by code_simp+
  from mistakes_are_typed_and_corrected[OF t] obtain n where
    c: "calls w' = calls clumsy_world @ replicate (Suc n) (exists_call ?l) @ focus_call ?l
          # typed_with (runes ''hi'') [Some 13, None]"
    and p: "replay (drop (length (calls clumsy_world)) (calls w')) [] = runes ''hi''"
    and u: "\<forall>rs. (\<forall>r\<in>set rs. valid_rune r) \<and> ''hi'' = concat (map string_of_rune rs) \<longrightarrow>
             replay (drop (length (calls clumsy_world)) (calls w')) [] = rs"
    unfolding m by blast
  have "(\<forall>r\<in>set [104, 105]. valid_rune r) \<and> ''hi'' = concat (map string_of_rune [104, 105])"
    by (simp add: valid_rune_def s)
  with u have q: "replay (drop (length (calls clumsy_world)) (calls w')) [] = [104, 105]"
    by blast
  let ?w1 = "snd (browser_SendCommandWithoutResponse ''Runtime.evaluate''
                (Some (focus_params ?l)) (snd (elementExists ?l clumsy_world)))"
  have w': "w' = mistype_runes (runes ''hi'') 10 ?w1"
    using f by (simp add: TypeWithMistakes_found_def case_prod_beta)
  have c1: "calls ?w1 = [exists_call ?l, focus_call ?l]"
    by (simp add: focus_call_def clumsy_world_def page_world_def)
  have r1: "random ?w1 = random clumsy_world" "drawn ?w1 = drawn clumsy_world" by simp_all
  from mistype_runes_fields[of "runes ''hi''" 10 ?w1]
  have "calls w' = [exists_call ?l, focus_call ?l] @ typed_with (runes ''hi'') [Some 13, None]"
    unfolding w' c1 r1 m by simp
  then have l: "length (calls w') = 6" by (simp add: r)
  from c l have "n = 0" by (simp add: clumsy_world_def page_world_def r)
  with c p q t show ?thesis
    by (simp add: clumsy_world_def page_world_def r s)
qed

subsection \<open>C7: the commands of Fill\<close>

text \<open>
  Claim C7. When \<^verbatim>\<open>Fill\<close> returns, the calls it made are one or more existence checks
  followed by exactly four commands, each once and in this order: the focus evaluation,
  the key event \<open>keyDown\<close> of \<open>a\<close> with modifier 2, the key event \<open>keyDown\<close> of
  Backspace, and one \<^verbatim>\<open>Input.insertText\<close> that carries the whole value. When the first
  existence check finds the element, \<^verbatim>\<open>Fill\<close> returns after that check and those four.
\<close>

theorem Fill_issues_four_commands_once:
  "(Fill l val w = (Returned (), w') \<longrightarrow>
      (\<exists>n. calls w' = calls w @ replicate (Suc n) (exists_call l) @ Fill_commands l val))
   \<and> (fst (elementExists l wa) = (True, None) \<longrightarrow>
      (\<exists>wa'. Fill l val wa = (Returned (), wa')
         \<and> calls wa' = calls wa @ exists_call l # Fill_commands l val))"
proof (intro conjI impI)
  assume "Fill l val w = (Returned (), w')"
  then have "poll l (Fill_found l val) (clock w) w = (Returned (), w')" by (simp add: Fill_def)
  from poll_cases[OF this] obtain w0 n where
    f: "Fill_found l val (snd (elementExists l w0)) = (Returned (), w')"
    and c: "calls w0 = calls w @ replicate n (exists_call l)" by auto
  from Fill_found_calls[OF f] c
  have "calls w' = calls w @ replicate (Suc n) (exists_call l) @ Fill_commands l val"
    by (simp add: elementExists_eq replicate_append_same)
  then show "\<exists>n. calls w' = calls w @ replicate (Suc n) (exists_call l) @ Fill_commands l val"
    by blast
next
  assume e: "fst (elementExists l wa) = (True, None)"
  have 0: "\<not> timeout < Since (clock wa) wa" by (simp add: Since_def timeout_def Second_def)
  obtain out wa' where f: "Fill_found l val (snd (elementExists l wa)) = (out, wa')"
    by (cases "Fill_found l val (snd (elementExists l wa))")
  from Fill_found_calls[OF f] f poll_found[OF 0 e, of "Fill_found l val"]
  have "Fill l val wa = (Returned (), wa') \<and> calls wa' = calls wa @ exists_call l # Fill_commands l val"
    by (simp add: Fill_def elementExists_eq)
  then show "\<exists>wa'. Fill l val wa = (Returned (), wa')
         \<and> calls wa' = calls wa @ exists_call l # Fill_commands l val" by blast
qed

text \<open>
  The theorem at a page where the element exists at the first check.
\<close>

theorem Fill_issues_four_commands_once_witness:
  "\<exists>w'. Fill \<lparr>selector = ''#name''\<rparr> ''Ada'' (page_world (\<lambda>k. (0, Inr (exists_reply True))))
          = (Returned (), w')
      \<and> calls w' =
          [WithResponse ''Runtime.evaluate'' (Some (exists_params \<lparr>selector = ''#name''\<rparr>)),
           WithoutResponse ''Runtime.evaluate'' (Some (focus_params \<lparr>selector = ''#name''\<rparr>)),
           WithoutResponse ''Input.dispatchKeyEvent''
             (Some [(''type'', GoString ''keyDown''), (''modifiers'', GoInt 2), (''key'', GoString ''a'')]),
           WithoutResponse ''Input.dispatchKeyEvent''
             (Some [(''type'', GoString ''keyDown''), (''key'', GoString ''Backspace'')]),
           WithoutResponse ''Input.insertText'' (Some [(''text'', GoString ''Ada'')])]"
proof -
  let ?w = "page_world (\<lambda>k. (0, Inr (exists_reply True)))"
  let ?l = "\<lparr>selector = ''#name''\<rparr>"
  have e: "fst (elementExists ?l ?w) = (True, None)"
    by (simp add: elementExists_eq page_world_def)
  from Fill_issues_four_commands_once[THEN conjunct2, rule_format, OF e, of "''Ada''"]
  obtain w' where 1: "Fill ?l ''Ada'' ?w = (Returned (), w')"
    and 2: "calls w' = calls ?w @ exists_call ?l # Fill_commands ?l ''Ada''" by blast
  from Fill_issues_four_commands_once[THEN conjunct1, rule_format, OF 1] 1 2
  show ?thesis by (simp add: page_world_def exists_call_def Fill_commands_def)
qed

subsection \<open>C8: an error of the existence check is retried\<close>

text \<open>
  Claim C8. When an existence check returns an error before the deadline, the loop sleeps
  one interval and runs again from the state after the sleep; this holds for the loop of
  each of the five operations. The loop itself ends in a failure only by the timeout:
  any other fatal outcome comes from the commands issued after an existence check has
  found the element.
\<close>

theorem poll_error_is_retried:
  "(\<not> timeout < Since start w \<and> elementExists l w = ((ex, Some err), w1) \<longrightarrow>
      poll l found start w = poll l found start (Sleep interval w1))
   \<and> (elementExists l w = ((ex, Some err), w1) \<longrightarrow>
        Fill l val w = poll l (Fill_found l val) (clock w) (Sleep interval w1)
      \<and> Click l w = poll l (Click_found l) (clock w) (Sleep interval w1)
      \<and> TypeSequentially l text delayMs w =
          poll l (TypeSequentially_found l text delayMs) (clock w) (Sleep interval w1)
      \<and> TypeWithMistakes l text delayMs w =
          poll l (TypeWithMistakes_found l text delayMs) (clock w) (Sleep interval w1)
      \<and> InnerText l w = poll l (InnerText_found l) (clock w) (Sleep interval w1))
   \<and> (poll l found start w = (Fatal f, w') \<longrightarrow>
        (f = TimeoutExceeded (selector l) \<and> timeout < Since start w')
      \<or> (\<exists>w0. fst (elementExists l w0) = (True, None)
            \<and> found (snd (elementExists l w0)) = (Fatal f, w')))"
proof (intro conjI impI)
  assume "\<not> timeout < Since start w \<and> elementExists l w = ((ex, Some err), w1)"
  then show "poll l found start w = poll l found start (Sleep interval w1)"
    using poll_retry_error by blast
next
  assume e: "elementExists l w = ((ex, Some err), w1)"
  note r = poll_retry_error[OF not_expired_at_start e]
  show "Fill l val w = poll l (Fill_found l val) (clock w) (Sleep interval w1)"
    unfolding Fill_def by (rule r)
  show "Click l w = poll l (Click_found l) (clock w) (Sleep interval w1)"
    unfolding Click_def by (rule r)
  show "TypeSequentially l text delayMs w =
          poll l (TypeSequentially_found l text delayMs) (clock w) (Sleep interval w1)"
    unfolding TypeSequentially_def by (rule r)
  show "TypeWithMistakes l text delayMs w =
          poll l (TypeWithMistakes_found l text delayMs) (clock w) (Sleep interval w1)"
    unfolding TypeWithMistakes_def by (rule r)
  show "InnerText l w = poll l (InnerText_found l) (clock w) (Sleep interval w1)"
    unfolding InnerText_def by (rule r)
next
  assume "poll l found start w = (Fatal f, w')"
  from poll_cases[OF this]
  show "(f = TimeoutExceeded (selector l) \<and> timeout < Since start w')
      \<or> (\<exists>w0. fst (elementExists l w0) = (True, None)
            \<and> found (snd (elementExists l w0)) = (Fatal f, w'))"
    by auto
qed

text \<open>
  The theorem at a page whose first existence check fails with a read error and whose
  second finds the element: \<^verbatim>\<open>Click\<close> returns after one interval; and at a page whose
  deadline has passed.
\<close>

theorem poll_error_is_retried_witness:
  "elementExists \<lparr>selector = ''#go''\<rparr> (page_world flaky_replies)
     = ((False, Some (ReadFailed ''connection reset'')),
        (page_world flaky_replies)\<lparr>calls := [exists_call \<lparr>selector = ''#go''\<rparr>]\<rparr>)
   \<and> poll \<lparr>selector = ''#go''\<rparr> (Click_found \<lparr>selector = ''#go''\<rparr>) 0 (page_world flaky_replies)
     = poll \<lparr>selector = ''#go''\<rparr> (Click_found \<lparr>selector = ''#go''\<rparr>) 0
         (Sleep interval ((page_world flaky_replies)\<lparr>calls := [exists_call \<lparr>selector = ''#go''\<rparr>]\<rparr>))
   \<and> (\<exists>w'. Click \<lparr>selector = ''#go''\<rparr> (page_world flaky_replies) = (Returned (), w')
         \<and> clock w' = 350000000
         \<and> length (calls w') = 3)
   \<and> poll \<lparr>selector = ''#go''\<rparr> (Click_found \<lparr>selector = ''#go''\<rparr>) 0
        ((page_world flaky_replies)\<lparr>clock := 31000000000\<rparr>)
     = (Fatal (TimeoutExceeded ''#go''), (page_world flaky_replies)\<lparr>clock := 31000000000\<rparr>)"
proof -
  let ?l = "\<lparr>selector = ''#go''\<rparr>"
  let ?w = "page_world flaky_replies"
  let ?w1 = "?w\<lparr>calls := [exists_call ?l]\<rparr>"
  let ?late = "?w\<lparr>clock := 31000000000\<rparr>"
  have e: "elementExists ?l ?w = ((False, Some (ReadFailed ''connection reset'')), ?w1)"
    by (simp add: elementExists_eq page_world_def flaky_replies_def exists_result_def)
  have t: "\<not> timeout < Since 0 ?w"
    by (simp add: Since_def timeout_def Second_def page_world_def)
  have x: "poll ?l (Click_found ?l) 0 ?late = (Fatal (TimeoutExceeded ''#go''), ?late)"
    using poll_timeout[of 0 ?late ?l "Click_found ?l"]
    by (simp add: Since_def timeout_def Second_def)
  note inst = poll_error_is_retried[where l = "?l" and w = "?w" and ex = False
      and err = "ReadFailed ''connection reset''" and ?w1.0 = "?w1" and start = 0
      and found = "Click_found ?l"]
  from inst[THEN conjunct1, THEN mp] t e
  have p: "poll ?l (Click_found ?l) 0 ?w = poll ?l (Click_found ?l) 0 (Sleep interval ?w1)"
    by blast
  from inst[THEN conjunct2, THEN conjunct1, THEN mp, OF e]
  have c: "Click ?l ?w = poll ?l (Click_found ?l) (clock ?w) (Sleep interval ?w1)" by blast
  from poll_error_is_retried[THEN conjunct2, THEN conjunct2, THEN mp, OF x]
  have "(TimeoutExceeded ''#go'' = TimeoutExceeded (selector ?l) \<and> timeout < Since 0 ?late)
      \<or> (\<exists>w0. fst (elementExists ?l w0) = (True, None)
            \<and> Click_found ?l (snd (elementExists ?l w0)) = (Fatal (TimeoutExceeded ''#go''), ?late))"
    .
  let ?w2 = "Sleep interval ?w1"
  have w2: "?w2 = ?w\<lparr>calls := [exists_call ?l], clock := 350000000\<rparr>"
    by (simp add: Sleep_interval page_world_def)
  have 0: "\<not> timeout < Since (clock ?w) ?w2"
    by (subst w2) (simp add: Since_def timeout_def Second_def page_world_def)
  have 1: "fst (elementExists ?l ?w2) = (True, None)"
    by (subst w2) (simp add: elementExists_eq page_world_def flaky_replies_def)
  obtain w' where f: "Click_found ?l (snd (elementExists ?l ?w2)) = (Returned (), w')"
    and k: "clock w' = 350000000" and n: "length (calls w') = 3"
    by (subst (asm) w2)
       (simp add: Click_found_def browser_SendCommandWithoutResponse_def elementExists_eq
          page_world_def flaky_replies_def log_Printf_def)
  from c poll_found[OF 0 1, of "Click_found ?l"] f
  have "Click ?l ?w = (Returned (), w')" by simp
  with e p x k n show ?thesis by blast
qed

subsection \<open>C9: the identifier is taken first\<close>

text \<open>
  Claim C9. Both send paths take the next identifier before they look at the connection or
  write: whatever the outcome, the counter is one higher after the call; the envelope
  carries that identifier and reaches the wire only when the write succeeds. A session
  that starts at 0 sends 1 first, and a call that fails leaves a gap: the next envelope
  on the wire carries the identifier after the one the failed call consumed.
\<close>

theorem identifier_allocated_before_connection:
  "(SendCommandWithoutResponse m p b w = (err, b', w') \<longrightarrow>
      messageID b' = messageID b + 1 \<and>
      wire_ids (events w') = wire_ids (events w) @ (if err = None then [messageID b + 1] else []))
   \<and> (SendCommandWithResponse um mr pr br wr = Some (res, br', wr') \<longrightarrow>
      messageID br' = messageID br + 1 \<and>
      wire_ids (events wr') = wire_ids (events wr) @
        (if (\<exists>e. res = Inl (ReconnectFailed e)) \<or> (\<exists>s. res = Inl (SendFailed s)) then []
         else [messageID br + 1]))
   \<and> (messageID bq = 0 \<and> SendCommandWithoutResponse mq pq bq wq = (None, bq', wq') \<longrightarrow>
      wire_ids (events wq') = wire_ids (events wq) @ [1])
   \<and> (SendCommandWithoutResponse mg pg bg wg = (Some eg, bh, wh) \<and>
      SendCommandWithoutResponse mh ph bh wh = (None, bi, wi) \<longrightarrow>
      wire_ids (events wi) = wire_ids (events wg) @ [messageID bg + 2])"
proof (intro conjI impI)
  assume "SendCommandWithoutResponse m p b w = (err, b', w')"
  from without_wire[OF this]
  show "messageID b' = messageID b + 1"
    "wire_ids (events w') = wire_ids (events w) @ (if err = None then [messageID b + 1] else [])"
    by simp_all
next
  assume "SendCommandWithResponse um mr pr br wr = Some (res, br', wr')"
  from with_wire[OF this]
  show "messageID br' = messageID br + 1"
    "wire_ids (events wr') = wire_ids (events wr) @
        (if (\<exists>e. res = Inl (ReconnectFailed e)) \<or> (\<exists>s. res = Inl (SendFailed s)) then []
         else [messageID br + 1])"
    by simp_all
next
  assume a: "messageID bq = 0 \<and> SendCommandWithoutResponse mq pq bq wq = (None, bq', wq')"
  then have "SendCommandWithoutResponse mq pq bq wq = (None, bq', wq')" by simp
  from without_wire(2)[OF this] a
  show "wire_ids (events wq') = wire_ids (events wq) @ [1]" by simp
next
  assume a: "SendCommandWithoutResponse mg pg bg wg = (Some eg, bh, wh) \<and>
      SendCommandWithoutResponse mh ph bh wh = (None, bi, wi)"
  then have 1: "SendCommandWithoutResponse mg pg bg wg = (Some eg, bh, wh)"
    and 2: "SendCommandWithoutResponse mh ph bh wh = (None, bi, wi)" by simp_all
  from without_wire[OF 1] without_wire(2)[OF 2]
  show "wire_ids (events wi) = wire_ids (events wg) @ [messageID bg + 2]"
    by (simp add: add.assoc)
qed

text \<open>
  The theorem at a session without a connection whose first reconnection fails: the
  failed call consumes 1 and the next envelope on the wire carries 2.
\<close>

theorem identifier_allocated_before_connection_witness:
  "SendCommandWithoutResponse ''Page.enable'' None unattached
     (scripted (\<lambda>k. if k = 0 then GetError ''refused'' else listing) (\<lambda>k. None) [])
   = (Some (ReconnectFailed (FetchPagesFailed ''refused'')), unattached\<lparr>messageID := 1\<rparr>,
      (scripted (\<lambda>k. if k = 0 then GetError ''refused'' else listing) (\<lambda>k. None) [])
        \<lparr>events := [EGet]\<rparr>)
   \<and> wire_ids (events (snd (snd (SendCommandWithoutResponse ''Network.enable'' None
        (unattached\<lparr>messageID := 1\<rparr>)
        ((scripted (\<lambda>k. if k = 0 then GetError ''refused'' else listing) (\<lambda>k. None) [])
           \<lparr>events := [EGet]\<rparr>))))) = [2]
   \<and> SendCommandWithResponse example_unmarshal ''Runtime.evaluate'' None unattached
        (scripted (\<lambda>k. GetError ''refused'') (\<lambda>k. None) [])
     = Some (Inl (ReconnectFailed (FetchPagesFailed ''refused'')), unattached\<lparr>messageID := 1\<rparr>,
        (scripted (\<lambda>k. GetError ''refused'') (\<lambda>k. None) [])\<lparr>events := [EGet]\<rparr>)
   \<and> wire_ids (events (snd (snd (SendCommandWithoutResponse ''Page.enable'' None attached
        (scripted (\<lambda>k. listing) (\<lambda>k. None) []))))) = [1]"
proof -
  let ?w = "scripted (\<lambda>k. if k = 0 then GetError ''refused'' else listing) (\<lambda>k. None) []"
  let ?v = "scripted (\<lambda>k. GetError ''refused'') (\<lambda>k. None) []"
  let ?u = "scripted (\<lambda>k. listing) (\<lambda>k. None) []"
  have 1: "SendCommandWithoutResponse ''Page.enable'' None unattached ?w
     = (Some (ReconnectFailed (FetchPagesFailed ''refused'')), unattached\<lparr>messageID := 1\<rparr>,
        ?w\<lparr>events := [EGet]\<rparr>)"
    by (simp add: browser_defs)
  obtain b6 w6 where 2: "SendCommandWithoutResponse ''Network.enable'' None
        (unattached\<lparr>messageID := 1\<rparr>) (?w\<lparr>events := [EGet]\<rparr>) = (None, b6, w6)"
    by (simp add: browser_defs)
  have 3: "SendCommandWithResponse example_unmarshal ''Runtime.evaluate'' None unattached ?v
     = Some (Inl (ReconnectFailed (FetchPagesFailed ''refused'')), unattached\<lparr>messageID := 1\<rparr>,
        ?v\<lparr>events := [EGet]\<rparr>)"
    by (simp add: browser_defs)
  obtain b7 w7 where 4: "messageID attached = 0
      \<and> SendCommandWithoutResponse ''Page.enable'' None attached ?u = (None, b7, w7)"
    by (simp add: browser_defs)
  note inst = identifier_allocated_before_connection[where m = "''Page.enable''" and p = None
      and b = unattached and w = "?w"
      and err = "Some (ReconnectFailed (FetchPagesFailed ''refused''))"
      and b' = "unattached\<lparr>messageID := 1\<rparr>" and w' = "?w\<lparr>events := [EGet]\<rparr>"
      and um = example_unmarshal and mr = "''Runtime.evaluate''" and pr = None
      and br = unattached and wr = "?v"
      and res = "Inl (ReconnectFailed (FetchPagesFailed ''refused''))"
      and br' = "unattached\<lparr>messageID := 1\<rparr>" and wr' = "?v\<lparr>events := [EGet]\<rparr>"
      and mq = "''Page.enable''" and pq = None and bq = attached and wq = "?u"
      and bq' = b7 and wq' = w7
      and mg = "''Page.enable''" and pg = None and bg = unattached and wg = "?w"
      and eg = "ReconnectFailed (FetchPagesFailed ''refused'')"
      and bh = "unattached\<lparr>messageID := 1\<rparr>" and wh = "?w\<lparr>events := [EGet]\<rparr>"
      and mh = "''Network.enable''" and ph = None and bi = b6 and wi = w6]
  from inst 1 2 3 4 show ?thesis
    by (simp add: unattached_def scripted_def)
qed

subsection \<open>C10: a malformed existence reply\<close>

text \<open>
  Claim C10. A reply to the existence check that lacks the nested boolean makes
  \<^verbatim>\<open>elementExists\<close> return \<open>false\<close> with the unexpected-format error, and the loop
  treats it as any other error: before the deadline it sleeps one interval and runs
  again. When every reply is malformed, each of the five operations ends with the
  timeout failure, after the deadline.
\<close>

theorem malformed_existence_reply_ends_in_timeout:
  "(with_response w (length (calls w)) = (d, Inr response) \<and> exists_value response = None \<longrightarrow>
      fst (elementExists l w) = (False, Some (UnexpectedResponseFormat response))
      \<and> (\<not> timeout < Since start w \<longrightarrow>
           poll l found start w = poll l found start (Sleep interval (snd (elementExists l w)))))
   \<and> ((\<forall>k. \<exists>d response. with_response wa k = (d, Inr response) \<and> exists_value response = None)
       \<longrightarrow>
      (\<exists>w1 w2 w3 w4 w5.
          Fill l val wa = (Fatal (TimeoutExceeded (selector l)), w1)
        \<and> Click l wa = (Fatal (TimeoutExceeded (selector l)), w2)
        \<and> TypeSequentially l text delayMs wa = (Fatal (TimeoutExceeded (selector l)), w3)
        \<and> TypeWithMistakes l text delayMs wa = (Fatal (TimeoutExceeded (selector l)), w4)
        \<and> InnerText l wa = (Fatal (TimeoutExceeded (selector l)), w5)
        \<and> (\<forall>w'\<in>{w1, w2, w3, w4, w5}. timeout < Since (clock wa) w')))"
proof (intro conjI impI)
  assume a: "with_response w (length (calls w)) = (d, Inr response) \<and> exists_value response = None"
  then show e: "fst (elementExists l w) = (False, Some (UnexpectedResponseFormat response))"
    by (simp add: elementExists_eq exists_result_def)
  assume t: "\<not> timeout < Since start w"
  from e have "fst (elementExists l w) \<noteq> (True, None)" by simp
  from poll_retry[OF t this, of found]
  show "poll l found start w = poll l found start (Sleep interval (snd (elementExists l w)))"
    by (simp add: next_round_def)
next
  assume a: "\<forall>k. \<exists>d response. with_response wa k = (d, Inr response) \<and> exists_value response = None"
  have n: "never_matches wa"
    unfolding never_matches_def
  proof
    fix k
    from a obtain d response where "with_response wa k = (d, Inr response)"
      "exists_value response = None" by blast
    then show "exists_result (snd (with_response wa k)) \<noteq> (True, None)"
      by (simp add: exists_result_def)
  qed
  have nb: "\<And>found::pworld \<Rightarrow> 'x outcome \<times> pworld. \<exists>w'. poll l found (clock wa) wa = (Fatal (TimeoutExceeded (selector l)), w')
      \<and> timeout < Since (clock wa) w'"
  proof -
    fix found :: "pworld \<Rightarrow> 'x outcome \<times> pworld"
    from poll_cases[of l found "clock wa" wa]
    obtain out w' where p: "poll l found (clock wa) wa = (out, w')"
      by (cases "poll l found (clock wa) wa")
    from poll_cases[OF p]
    show "\<exists>w'. poll l found (clock wa) wa = (Fatal (TimeoutExceeded (selector l)), w')
      \<and> timeout < Since (clock wa) w'"
    proof (elim disjE exE conjE)
      assume "out = Fatal (TimeoutExceeded (selector l))" "timeout < Since (clock wa) w'"
      with p show ?thesis by blast
    next
      fix w0 n0 assume f: "fst (elementExists l w0) = (True, None)" and s: "same_scripts wa w0"
      from n s have "never_matches w0" by (simp add: never_matches_def same_scripts_def)
      from never_matches_not_found[OF this] f show ?thesis by blast
    qed
  qed
  from nb[of "Fill_found l val"] nb[of "Click_found l"] nb[of "TypeSequentially_found l text delayMs"]
    nb[of "TypeWithMistakes_found l text delayMs"] nb[of "InnerText_found l"]
  show "\<exists>w1 w2 w3 w4 w5.
          Fill l val wa = (Fatal (TimeoutExceeded (selector l)), w1)
        \<and> Click l wa = (Fatal (TimeoutExceeded (selector l)), w2)
        \<and> TypeSequentially l text delayMs wa = (Fatal (TimeoutExceeded (selector l)), w3)
        \<and> TypeWithMistakes l text delayMs wa = (Fatal (TimeoutExceeded (selector l)), w4)
        \<and> InnerText l wa = (Fatal (TimeoutExceeded (selector l)), w5)
        \<and> (\<forall>w'\<in>{w1, w2, w3, w4, w5}. timeout < Since (clock wa) w')"
    unfolding Fill_def Click_def TypeSequentially_def TypeWithMistakes_def InnerText_def
    by (elim exE conjE) (intro exI conjI ballI, assumption+, auto)
qed

text \<open>
  The theorem at a page whose every existence reply carries the boolean one level too
  high.
\<close>

theorem malformed_existence_reply_ends_in_timeout_witness:
  "fst (elementExists \<lparr>selector = ''#x''\<rparr> (page_world (\<lambda>k. (0, Inr malformed_reply))))
     = (False, Some (UnexpectedResponseFormat malformed_reply))
   \<and> poll \<lparr>selector = ''#x''\<rparr> (Click_found \<lparr>selector = ''#x''\<rparr>) 0
        (page_world (\<lambda>k. (0, Inr malformed_reply)))
     = poll \<lparr>selector = ''#x''\<rparr> (Click_found \<lparr>selector = ''#x''\<rparr>) 0
        ((page_world (\<lambda>k. (0, Inr malformed_reply)))
           \<lparr>calls := [exists_call \<lparr>selector = ''#x''\<rparr>], clock := 350000000\<rparr>)
   \<and> (\<exists>w'. Click \<lparr>selector = ''#x''\<rparr> (page_world (\<lambda>k. (0, Inr malformed_reply)))
          = (Fatal (TimeoutExceeded ''#x''), w') \<and> 30000000000 < int (clock w'))"
proof -
  let ?l = "\<lparr>selector = ''#x''\<rparr>"
  let ?w = "page_world (\<lambda>k. (0, Inr malformed_reply))"
  have h1: "with_response ?w (length (calls ?w)) = (0, Inr malformed_reply)
      \<and> exists_value malformed_reply = None"
    by (simp add: page_world_def)
  have t: "\<not> timeout < Since 0 ?w"
    by (simp add: Since_def timeout_def Second_def page_world_def)
  have h2: "\<forall>k. \<exists>d response. with_response ?w k = (d, Inr response) \<and> exists_value response = None"
    by (simp add: page_world_def)
  note inst = malformed_existence_reply_ends_in_timeout[where w = "?w" and d = 0
      and response = malformed_reply and l = "?l" and start = 0 and found = "Click_found ?l"
      and wa = "?w" and val = "''v''" and ?text = "''t''" and delayMs = 0]
  from inst[THEN conjunct1, THEN mp, OF h1]
  have a: "fst (elementExists ?l ?w) = (False, Some (UnexpectedResponseFormat malformed_reply))"
    and b: "poll ?l (Click_found ?l) 0 ?w
        = poll ?l (Click_found ?l) 0 (Sleep interval (snd (elementExists ?l ?w)))"
    using t by blast+
  have s: "Sleep interval (snd (elementExists ?l ?w))
      = ?w\<lparr>calls := [exists_call ?l], clock := 350000000\<rparr>"
    by (simp add: elementExists_eq Sleep_interval page_world_def)
  from inst[THEN conjunct2, THEN mp, OF h2]
  obtain w2 where "Click ?l ?w = (Fatal (TimeoutExceeded (selector ?l)), w2)"
    "timeout < Since (clock ?w) w2" by auto
  then have "Click ?l ?w = (Fatal (TimeoutExceeded ''#x''), w2) \<and> 30000000000 < int (clock w2)"
    by (simp add: Since_def timeout_def Second_def page_world_def)
  with a b[unfolded s] show ?thesis by blast
qed

end
